theory Spec2Isabelle
  imports Complex_Main "HOL-Library.Log_Nat"
begin

section \<open>Python values\<close>

text \<open>
  The exceptions the two source files can raise or catch. \<open>Raised msg\<close> stands for any
  exception of an external library (PIL, the model client); the source catches those
  with \<^verbatim>\<open>except Exception\<close> and only prints them.
\<close>

datatype error = IndexError | AttributeError | ValueError | JSONDecodeError | Raised string

text \<open>
  Python's \<^verbatim>\<open>s[j]\<close> on a string: a negative index counts from the end, an index out of
  range raises IndexError.
\<close>

definition getitem :: "string \<Rightarrow> int \<Rightarrow> error + char" where
  "getitem s j =
     (let n = int (length s); k = (if j < 0 then n + j else j)
      in if 0 \<le> k \<and> k < n then Inr (s ! nat k) else Inl IndexError)"

text \<open>\<^verbatim>\<open>str(i)\<close> for a non-negative integer: its decimal digits.\<close>

definition digit_char :: "nat \<Rightarrow> char" where
  "digit_char d = char_of (48 + d)"

function str_nat :: "nat \<Rightarrow> string" where
  "str_nat n = (if n < 10 then [digit_char n] else str_nat (n div 10) @ [digit_char (n mod 10)])"
  by pat_completeness auto
termination
  by (relation "measure (\<lambda>n. n)") auto

declare str_nat.simps [simp del]

text \<open>
  A Python \<^verbatim>\<open>str\<close> is a sequence of Unicode code points, and \<^verbatim>\<open>ord\<close> gives the code point of
  a character as an int. The texts that reach the program from outside (the response
  of the model, the content of a file, the strings of a JSON document) are lists of code
  points. The strings the two files spell out themselves (labels, ids, paths, the names
  of the models) are HOL strings; \<open>ascii\<close> gives their code points.
\<close>

type_synonym str = "int list"

definition ascii :: "string \<Rightarrow> str" where
  "ascii s = map of_char s"

lemma ascii_Nil [simp]: "ascii [] = []"
  by (simp add: ascii_def)

lemma ascii_Cons [simp]: "ascii (c # cs) = of_char c # ascii cs"
  by (simp add: ascii_def)

lemma ascii_append [simp]: "ascii (s @ t) = ascii s @ ascii t"
  by (simp add: ascii_def)

subsection \<open>Floats\<close>

text \<open>
  A Python float is an IEEE 754 binary64 value. \<open>Fin q\<close> is the finite double whose
  exact value is the rational \<open>q\<close>; the two zeros are one value, as they are for
  Python's \<^verbatim>\<open>==\<close> and \<^verbatim>\<open><\<close>. There is no NaN: the pipeline only divides by, multiplies
  with, and subtracts finite non-zero constants, and none of these produces a NaN from a
  finite or infinite operand.
\<close>

datatype pyfloat = NInf | Fin rat | PInf

definition scale2 :: "int \<Rightarrow> int \<Rightarrow> int" where
  "scale2 n k = n * 2 ^ nat k"

text \<open>\<open>n / d\<close> rounded to the nearest integer, a tie to the even one (\<open>0 \<le> n\<close>, \<open>0 < d\<close>).\<close>

definition round_half_even_div :: "int \<Rightarrow> int \<Rightarrow> int" where
  "round_half_even_div n d =
     (let f = n div d; r = 2 * (n mod d)
      in if r < d then f else if d < r then f + 1 else if even f then f else f + 1)"

text \<open>The integer \<open>e\<close> with \<open>2 ^ e \<le> n / d < 2 ^ (e + 1)\<close>, for positive \<open>n\<close> and \<open>d\<close>.\<close>

definition floor_log2 :: "int \<Rightarrow> int \<Rightarrow> int" where
  "floor_log2 n d =
     (let k = bitlen n - bitlen d
      in if scale2 d k \<le> scale2 n (- k) then k else k - 1)"

text \<open>
  Rounding of a positive \<open>n / d\<close> to 53 significant bits, with the exponent of the last
  place no smaller than that of the subnormals (\<open>- 1074\<close>): the result is \<open>m * 2 ^ p\<close>.
\<close>

definition round_pos :: "int \<Rightarrow> int \<Rightarrow> int \<times> int" where
  "round_pos n d =
     (let p = max (floor_log2 n d) (- 1022) - 52
      in (round_half_even_div (scale2 n (- p)) (scale2 d p), p))"

text \<open>
  The double nearest to a rational (round to nearest, ties to even); a magnitude that
  rounds to \<open>2 ^ 1024\<close> or more overflows to an infinity.
\<close>

definition to_double :: "rat \<Rightarrow> pyfloat" where
  "to_double q =
     (if q = 0 then Fin 0
      else let (n, d) = quotient_of q; (m, p) = round_pos \<bar>n\<bar> d
           in if 1024 < bitlen m + p then (if 0 < q then PInf else NInf)
              else Fin (of_int (if 0 < q then scale2 m p else - scale2 m p)
                        / of_int (scale2 1 (- p))))"

text \<open>
  The arithmetic of lines 102 and 107 of detect.py. The right operand (for \<open>float_rsub\<close>
  the left one) is a finite positive constant of the source, exactly representable as a
  double: \<^verbatim>\<open>x / c\<close>, \<^verbatim>\<open>x * c\<close>, \<^verbatim>\<open>x - c\<close> and \<^verbatim>\<open>c - x\<close>.
\<close>

fun float_div :: "pyfloat \<Rightarrow> rat \<Rightarrow> pyfloat" where
  "float_div (Fin q) c = to_double (q / c)"
| "float_div PInf c = PInf"
| "float_div NInf c = NInf"

fun float_mul :: "pyfloat \<Rightarrow> rat \<Rightarrow> pyfloat" where
  "float_mul (Fin q) c = to_double (q * c)"
| "float_mul PInf c = PInf"
| "float_mul NInf c = NInf"

fun float_sub :: "pyfloat \<Rightarrow> rat \<Rightarrow> pyfloat" where
  "float_sub (Fin q) c = to_double (q - c)"
| "float_sub PInf c = PInf"
| "float_sub NInf c = NInf"

fun float_rsub :: "rat \<Rightarrow> pyfloat \<Rightarrow> pyfloat" where
  "float_rsub c (Fin q) = to_double (c - q)"
| "float_rsub c PInf = NInf"
| "float_rsub c NInf = PInf"

text \<open>
  \<^verbatim>\<open>round(v, 2)\<close>: the exact value of the double is rounded to two decimals, half to
  even, and the decimal is converted back to the nearest double; an infinity rounds to
  itself.
\<close>

fun py_round2 :: "pyfloat \<Rightarrow> pyfloat" where
  "py_round2 (Fin q) =
     (let (n, d) = quotient_of q
      in if 0 \<le> n then to_double (of_int (round_half_even_div (n * 100) d) / 100)
         else to_double (- of_int (round_half_even_div (- n * 100) d) / 100))"
| "py_round2 PInf = PInf"
| "py_round2 NInf = NInf"

text \<open>The order of floats, as \<^verbatim>\<open><\<close> and \<^verbatim>\<open><=\<close> of Python compare them.\<close>

fun float_rank :: "pyfloat \<Rightarrow> nat" where
  "float_rank NInf = 0"
| "float_rank (Fin q) = 1"
| "float_rank PInf = 2"

fun float_le :: "pyfloat \<Rightarrow> pyfloat \<Rightarrow> bool" where
  "float_le (Fin a) (Fin b) = (a \<le> b)"
| "float_le a b = (float_rank a \<le> float_rank b)"

instantiation pyfloat :: linorder
begin

definition less_eq_pyfloat :: "pyfloat \<Rightarrow> pyfloat \<Rightarrow> bool" where
  "less_eq_pyfloat a b = float_le a b"

definition less_pyfloat :: "pyfloat \<Rightarrow> pyfloat \<Rightarrow> bool" where
  "less_pyfloat a b = (float_le a b \<and> \<not> float_le b a)"

instance
proof
  fix x y z :: pyfloat
  show "(x < y) = (x \<le> y \<and> \<not> y \<le> x)"
    by (simp add: less_pyfloat_def less_eq_pyfloat_def)
  show "x \<le> x"
    by (cases x) (simp_all add: less_eq_pyfloat_def)
  show "x \<le> y \<Longrightarrow> y \<le> z \<Longrightarrow> x \<le> z"
    by (cases x; cases y; cases z) (simp_all add: less_eq_pyfloat_def)
  show "x \<le> y \<Longrightarrow> y \<le> x \<Longrightarrow> x = y"
    by (cases x; cases y) (simp_all add: less_eq_pyfloat_def)
  show "x \<le> y \<or> y \<le> x"
    by (cases x; cases y) (auto simp add: less_eq_pyfloat_def)
qed

end

section \<open>detect.py: labels and angles (lines 92 to 116)\<close>

definition alphabet :: string where
  "alphabet = ''ABCDEFGHIJKLMNOPQRSTUVWXYZ''"

text \<open>
  Lines 95 to 98: the label of the point at position \<open>i\<close>. The left operand of the
  concatenation is indexed first.
\<close>

definition label_text :: "nat \<Rightarrow> error + string" where
  "label_text i =
     (if i < 26 then
        (case getitem alphabet (int i) of Inl e \<Rightarrow> Inl e | Inr a \<Rightarrow> Inr [a])
      else
        (case getitem alphabet (int i div 26 - 1) of
           Inl e \<Rightarrow> Inl e
         | Inr a \<Rightarrow>
             (case getitem alphabet (int i mod 26) of
                Inl e \<Rightarrow> Inl e
              | Inr b \<Rightarrow> Inr [a, b])))"

record hotspot =
  id_str :: string
  label :: string
  yaw :: pyfloat
  pitch :: pyfloat
  y_norm :: pyfloat
  x_norm :: pyfloat

text \<open>Lines 102 and 107: the angles before rounding.\<close>

definition yaw_of :: "pyfloat \<Rightarrow> pyfloat" where
  "yaw_of norm_x = float_sub (float_mul (float_div norm_x 1000) 360) 180"

definition pitch_of :: "pyfloat \<Rightarrow> pyfloat" where
  "pitch_of norm_y = float_rsub 90 (float_mul (float_div norm_y 1000) 180)"

text \<open>Lines 109 to 116: the dictionary appended for position \<open>i\<close>.\<close>

definition building :: "nat \<Rightarrow> string \<Rightarrow> pyfloat \<Rightarrow> pyfloat \<Rightarrow> hotspot" where
  "building i lbl norm_y norm_x =
     \<lparr>id_str = str_nat i, label = lbl,
      yaw = py_round2 (yaw_of norm_x), pitch = py_round2 (pitch_of norm_y),
      y_norm = norm_y, x_norm = norm_x\<rparr>"

text \<open>
  The loop of line 94 over \<^verbatim>\<open>enumerate(points)\<close>, from position \<open>i\<close> on, with the list
  built so far. An IndexError of the label leaves the loop and the function.
\<close>

fun enumerate_points ::
  "nat \<Rightarrow> (pyfloat \<times> pyfloat) list \<Rightarrow> hotspot list \<Rightarrow> error + hotspot list" where
  "enumerate_points i [] buildings_data = Inr buildings_data"
| "enumerate_points i ((norm_y, norm_x) # points) buildings_data =
     (case label_text i of
        Inl e \<Rightarrow> Inl e
      | Inr lbl \<Rightarrow>
          enumerate_points (Suc i) points (buildings_data @ [building i lbl norm_y norm_x]))"

section \<open>detect.py: the response text and its points (lines 62 to 90)\<close>

text \<open>
  The pattern of line 73 is a \<^verbatim>\<open>str\<close> pattern, so \<^verbatim>\<open>\d\<close> matches every character of the
  Unicode category Nd (decimal digit) and \<^verbatim>\<open>\s\<close> every character for which
  \<^verbatim>\<open>str.isspace\<close> holds. The digits come in runs of ten consecutive code points, from the
  digit zero to the digit nine of a script; \<open>digit_zeros\<close> lists the zero of each run and
  \<open>space_points\<close> the whitespace characters, both as of Unicode 14.0 (CPython 3.11).
\<close>

definition digit_zeros :: "int list" where
  "digit_zeros =
     [48, 1632, 1776, 1984, 2406, 2534, 2662, 2790, 2918, 3046, 3174, 3302, 3430, 3558,
      3664, 3792, 3872, 4160, 4240, 6112, 6160, 6470, 6608, 6784, 6800, 6992, 7088, 7232,
      7248, 42528, 43216, 43264, 43472, 43504, 43600, 44016, 65296, 66720, 68912, 69734,
      69872, 69942, 70096, 70384, 70736, 70864, 71248, 71360, 71472, 71904, 72016, 72784,
      73040, 73120, 92768, 92864, 93008, 120782, 120792, 120802, 120812, 120822, 123200,
      123632, 125264, 130032]"

definition space_points :: "int list" where
  "space_points =
     [9, 10, 11, 12, 13, 28, 29, 30, 31, 32, 133, 160, 5760, 8192, 8193, 8194, 8195, 8196,
      8197, 8198, 8199, 8200, 8201, 8202, 8232, 8233, 8239, 8287, 12288]"

definition is_digit :: "int \<Rightarrow> bool" where
  "is_digit c = list_ex (\<lambda>z. z \<le> c \<and> c < z + 10) digit_zeros"

definition is_space :: "int \<Rightarrow> bool" where
  "is_space c = (c \<in> set space_points)"

text \<open>
  The group \<^verbatim>\<open>(\d+(?:\.\d+)?)\<close> at the start of a string: the captured literal and the
  rest of the string. The digits are taken greedily; a dot belongs to the literal only
  when a digit follows it.
\<close>

definition take_number :: "str \<Rightarrow> (str \<times> str) option" where
  "take_number s =
     (let ip = takeWhile is_digit s; r = dropWhile is_digit s
      in if ip = [] then None
         else (case r of
                 c # r' \<Rightarrow>
                   if c = of_char CHR ''.'' \<and> takeWhile is_digit r' \<noteq> []
                   then Some (ip @ [c] @ takeWhile is_digit r', dropWhile is_digit r')
                   else Some (ip, r)
               | [] \<Rightarrow> Some (ip, r)))"

definition skip_spaces :: "str \<Rightarrow> str" where
  "skip_spaces s = dropWhile is_space s"

text \<open>
  The pattern of line 73, \<^verbatim>\<open>\[\s*(\d+(?:\.\d+)?)\s*,\s*(\d+(?:\.\d+)?)\s*\]\<close>, matched
  at the start of a string: the two groups and the rest of the string after the match.
  Each piece of the pattern is followed by one that cannot start with a character the
  piece itself accepts, so the greedy choice is the only one a backtracking matcher can
  succeed with.
\<close>

definition match_here :: "str \<Rightarrow> ((str \<times> str) \<times> str) option" where
  "match_here s =
     (case s of
        [] \<Rightarrow> None
      | c0 # s1 \<Rightarrow>
          if c0 \<noteq> of_char CHR ''['' then None
          else (case take_number (skip_spaces s1) of
                  None \<Rightarrow> None
                | Some (y_str, s2) \<Rightarrow>
                    (case skip_spaces s2 of
                       [] \<Rightarrow> None
                     | c1 # s3 \<Rightarrow>
                         if c1 \<noteq> of_char CHR '','' then None
                         else (case take_number (skip_spaces s3) of
                                 None \<Rightarrow> None
                               | Some (x_str, s4) \<Rightarrow>
                                   (case skip_spaces s4 of
                                      [] \<Rightarrow> None
                                    | c2 # s5 \<Rightarrow>
                                        if c2 \<noteq> of_char CHR '']'' then None
                                        else Some ((y_str, x_str), s5))))))"

lemma take_number_append: "take_number s = Some (n, r) \<Longrightarrow> s = n @ r"
proof -
  assume h: "take_number s = Some (n, r)"
  have whole: "s = takeWhile is_digit s @ dropWhile is_digit s"
    by simp
  show ?thesis
  proof (cases "dropWhile is_digit s")
    case Nil
    with h whole show ?thesis
      by (simp add: take_number_def Let_def split: if_splits)
  next
    case (Cons c r')
    have rest: "r' = takeWhile is_digit r' @ dropWhile is_digit r'"
      by simp
    show ?thesis
    proof (cases "c = of_char CHR ''.'' \<and> takeWhile is_digit r' \<noteq> []")
      case True
      with h Cons have "n = takeWhile is_digit s @ [c] @ takeWhile is_digit r'"
        and "r = dropWhile is_digit r'"
        by (simp_all add: take_number_def Let_def split: if_splits)
      with whole Cons rest show ?thesis
        by (metis append.assoc append_Cons append_Nil)
    next
      case False
      with h Cons have "n = takeWhile is_digit s" and "r = dropWhile is_digit s"
        by (auto simp add: take_number_def Let_def split: if_splits)
      with whole show ?thesis by simp
    qed
  qed
qed

lemma take_number_shorter: "take_number s = Some (n, r) \<Longrightarrow> length r \<le> length s"
  by (drule take_number_append) simp

lemma match_here_shorter: "match_here s = Some (g, r) \<Longrightarrow> length r < length s"
proof -
  have sk: "length (skip_spaces t) \<le> length t" for t
    by (simp add: skip_spaces_def length_dropWhile_le)
  assume "match_here s = Some (g, r)"
  then obtain s1 y s2 s3 x s4 where
    s: "s = of_char CHR ''['' # s1" and
    n1: "take_number (skip_spaces s1) = Some (y, s2)" and
    c1: "skip_spaces s2 = of_char CHR '','' # s3" and
    n2: "take_number (skip_spaces s3) = Some (x, s4)" and
    c2: "skip_spaces s4 = of_char CHR '']'' # r"
    by (auto simp: match_here_def split: list.splits if_splits option.splits)
  have "length r < length s4" using sk [of s4] c2 by simp
  also have "\<dots> \<le> length s3"
    using take_number_shorter [OF n2] sk [of s3] by simp
  also have "\<dots> \<le> length s2" using sk [of s2] c1 by simp
  also have "\<dots> \<le> length s1"
    using take_number_shorter [OF n1] sk [of s1] by simp
  finally show ?thesis using s by simp
qed

text \<open>
  \<^verbatim>\<open>re.findall\<close> with the pattern of line 73: the groups of the matches found from left
  to right. After a match the scan goes on behind it; where nothing matches, it goes on
  at the next character.
\<close>

function findall :: "str \<Rightarrow> (str \<times> str) list" where
  "findall [] = []"
| "findall (c # cs) =
     (case match_here (c # cs) of
        Some (g, r) \<Rightarrow> g # findall r
      | None \<Rightarrow> findall cs)"
  by pat_completeness auto
termination
  by (relation "measure length") (auto dest: match_here_shorter)

declare findall.simps(2) [simp del]

text \<open>
  \<^verbatim>\<open>float(s)\<close> on an unsigned decimal literal, digits with an optional fraction: the
  double nearest to its value. A digit of any script stands for its decimal value, its
  offset in its run of ten. \<^verbatim>\<open>float\<close> accepts more forms (a sign, an exponent,
  surrounding blanks); the groups of the pattern never hold one, and the model answers
  them with the ValueError that line 86 catches.
\<close>

definition digit_value :: "int \<Rightarrow> nat" where
  "digit_value c =
     (case find (\<lambda>z. z \<le> c \<and> c < z + 10) digit_zeros of
        Some z \<Rightarrow> nat (c - z)
      | None \<Rightarrow> 0)"

definition nat_of_digits :: "str \<Rightarrow> nat" where
  "nat_of_digits ds = foldl (\<lambda>n c. 10 * n + digit_value c) 0 ds"

definition literal_value :: "str \<Rightarrow> rat" where
  "literal_value s =
     (let ip = takeWhile is_digit s; fp = drop (Suc (length ip)) s
      in of_nat (nat_of_digits ip) + of_nat (nat_of_digits fp) / 10 ^ length fp)"

definition is_literal :: "str \<Rightarrow> bool" where
  "is_literal s =
     (let ip = takeWhile is_digit s; r = dropWhile is_digit s
      in ip \<noteq> [] \<and>
         (r = [] \<or> (hd r = of_char CHR ''.'' \<and> tl r \<noteq> [] \<and> list_all is_digit (tl r))))"

definition py_float :: "str \<Rightarrow> error + pyfloat" where
  "py_float s = (if is_literal s then Inr (to_double (literal_value s)) else Inl ValueError)"

text \<open>Lines 82 to 87: a pair whose conversion raises ValueError is left out.\<close>

fun parse_points :: "(str \<times> str) list \<Rightarrow> (pyfloat \<times> pyfloat) list" where
  "parse_points [] = []"
| "parse_points ((y_str, x_str) # matches) =
     (case py_float y_str of
        Inl e \<Rightarrow> parse_points matches
      | Inr y \<Rightarrow>
          (case py_float x_str of
             Inl e \<Rightarrow> parse_points matches
           | Inr x \<Rightarrow> (y, x) # parse_points matches))"

text \<open>
  The response of the model client, as far as lines 63 to 66 read it. Each of
  \<^verbatim>\<open>candidates\<close>, \<^verbatim>\<open>content\<close>, \<^verbatim>\<open>parts\<close> and \<^verbatim>\<open>text\<close> may be \<^verbatim>\<open>None\<close>.
\<close>

datatype part = Part (part_text: "str option")

datatype content = Content (parts: "part list option")

datatype candidate = Candidate (content: "content option")

datatype response = Response (candidates: "candidate list option")

text \<open>Line 65 and 66: a part with a non-empty text adds it to the response text.\<close>

fun add_part :: "str \<Rightarrow> part \<Rightarrow> str" where
  "add_part text_response (Part None) = text_response"
| "add_part text_response (Part (Some t)) =
     (if t = [] then text_response else text_response @ t)"

text \<open>
  Lines 62 to 66. An empty or missing candidate list, or an empty or missing part list,
  leaves the text empty; reading \<^verbatim>\<open>.parts\<close> of a missing content raises.
\<close>

definition response_text :: "response \<Rightarrow> error + str" where
  "response_text r =
     (case candidates r of
        None \<Rightarrow> Inr []
      | Some [] \<Rightarrow> Inr []
      | Some (c # cs) \<Rightarrow>
          (case content c of
             None \<Rightarrow> Inl AttributeError
           | Some ct \<Rightarrow>
               (case parts ct of
                  None \<Rightarrow> Inr []
                | Some ps \<Rightarrow> Inr (foldl add_part [] ps))))"

section \<open>The world outside the two files\<close>

text \<open>
  A JSON document as Python's \<^verbatim>\<open>json\<close> module holds it: \<^verbatim>\<open>None\<close>, a bool, an int, a
  float, a string, a list, or a dict with its keys in order. \<open>JNaN\<close> is the float NaN,
  which a document can hold and the arithmetic of detect.py never meets.
\<close>

datatype json =
    JNull
  | JBool bool
  | JInt int
  | JFloat pyfloat
  | JNaN
  | JString str
  | JArray "json list"
  | JObject "(str \<times> json) list"

text \<open>
  What the code calls and does not define: PIL's \<^verbatim>\<open>Image.open\<close>, \<^verbatim>\<open>copy\<close> and
  \<^verbatim>\<open>thumbnail\<close> (given the size bound), \<^verbatim>\<open>client.models.generate_content\<close> (given the
  model's name and the two contents), and \<^verbatim>\<open>json.dump\<close> with \<^verbatim>\<open>indent=2\<close> and
  \<^verbatim>\<open>json.load\<close>. Each call that can raise returns the exception as \<open>Inl\<close>.
\<close>

record 'img world =
  pil_open :: "string \<Rightarrow> error + 'img"
  pil_copy :: "'img \<Rightarrow> error + 'img"
  pil_thumbnail :: "'img \<Rightarrow> nat \<times> nat \<Rightarrow> error + 'img"
  generate_content :: "string \<Rightarrow> string \<Rightarrow> 'img \<Rightarrow> error + response"
  json_dump :: "json \<Rightarrow> str"
  json_load :: "str \<Rightarrow> error + json"

text \<open>
  The files on disk: the content of each path that exists. Opening a file for writing is
  taken to succeed; the errors of the operating system are not part of the model.
\<close>

type_synonym filesystem = "string \<rightharpoonup> str"

section \<open>detect.py: analyze_panorama\<close>

text \<open>Lines 31 to 41, the body of the first \<^verbatim>\<open>try\<close>: the downscaled copy.\<close>

definition load_image :: "'img world \<Rightarrow> string \<Rightarrow> error + 'img" where
  "load_image w image_path =
     (case pil_open w image_path of
        Inl e \<Rightarrow> Inl e
      | Inr img \<Rightarrow>
          (case pil_copy w img of
             Inl e \<Rightarrow> Inl e
           | Inr ai_img \<Rightarrow> pil_thumbnail w ai_img (2048, 2048)))"

definition primary_model :: string where
  "primary_model = ''gemini-3-pro-image-preview''"

definition backup_model :: string where
  "backup_model = ''gemini-3-pro-preview''"

text \<open>
  Lines 45 to 60: the call of the primary model and, when it raises, of the backup
  model. The second component lists the calls made, in order: model, prompt and image.
\<close>

definition call_model ::
  "'img world \<Rightarrow> string \<Rightarrow> 'img \<Rightarrow> (error + response) \<times> (string \<times> string \<times> 'img) list" where
  "call_model w prompt_text ai_img =
     (case generate_content w primary_model prompt_text ai_img of
        Inr response \<Rightarrow> (Inr response, [(primary_model, prompt_text, ai_img)])
      | Inl e \<Rightarrow>
          (case generate_content w backup_model prompt_text ai_img of
             Inr response \<Rightarrow>
               (Inr response,
                [(primary_model, prompt_text, ai_img), (backup_model, prompt_text, ai_img)])
           | Inl e2 \<Rightarrow>
               (Inl e2,
                [(primary_model, prompt_text, ai_img), (backup_model, prompt_text, ai_img)])))"

text \<open>Lines 109 to 116 as the JSON object that \<^verbatim>\<open>json.dump\<close> receives.\<close>

definition hotspot_json :: "hotspot \<Rightarrow> json" where
  "hotspot_json h =
     JObject [(ascii ''id'', JString (ascii (id_str h))),
              (ascii ''label'', JString (ascii (label h))),
              (ascii ''yaw'', JFloat (yaw h)), (ascii ''pitch'', JFloat (pitch h)),
              (ascii ''y_norm'', JFloat (y_norm h)), (ascii ''x_norm'', JFloat (x_norm h))]"

text \<open>Lines 89 to 116: the points sorted by \<open>x\<close> and labelled from position 0.\<close>

definition sort_and_label :: "(pyfloat \<times> pyfloat) list \<Rightarrow> error + hotspot list" where
  "sort_and_label points = enumerate_points 0 (sort_key snd points) []"

text \<open>Lines 118 to 121: the file is written when a non-empty path is given.\<close>

definition write_buildings ::
  "'img world \<Rightarrow> filesystem \<Rightarrow> string option \<Rightarrow> hotspot list \<Rightarrow> filesystem" where
  "write_buildings w fs output_json_path buildings_data =
     (case output_json_path of
        None \<Rightarrow> fs
      | Some p \<Rightarrow>
          if p = [] then fs
          else fs(p \<mapsto> json_dump w (JArray (map hotspot_json buildings_data))))"

text \<open>
  What a run leaves behind: the returned list or the exception that escaped, the model
  calls made, and the files.
\<close>

record 'img outcome =
  result :: "error + hotspot list"
  calls :: "(string \<times> string \<times> 'img) list"
  files :: filesystem

text \<open>Lines 68 to 126: from the response text to the returned list.\<close>

definition detect_in_text ::
  "'img world \<Rightarrow> filesystem \<Rightarrow> string option \<Rightarrow> str \<Rightarrow> (error + hotspot list) \<times> filesystem" where
  "detect_in_text w fs output_json_path text_response =
     (if text_response = [] then (Inr [], fs)
      else let matches = findall text_response
           in if matches = [] then (Inr [], fs)
              else (case sort_and_label (parse_points matches) of
                      Inl e \<Rightarrow> (Inl e, fs)
                    | Inr buildings_data \<Rightarrow>
                        (Inr buildings_data,
                         write_buildings w fs output_json_path buildings_data)))"

definition analyze_panorama ::
  "'img world \<Rightarrow> filesystem \<Rightarrow> string \<Rightarrow> string \<Rightarrow> string option \<Rightarrow> 'img outcome" where
  "analyze_panorama w fs image_path prompt_text output_json_path =
     (case load_image w image_path of
        Inl e \<Rightarrow> \<lparr>result = Inr [], calls = [], files = fs\<rparr>
      | Inr ai_img \<Rightarrow>
          (case call_model w prompt_text ai_img of
             (Inl e2, cs) \<Rightarrow> \<lparr>result = Inr [], calls = cs, files = fs\<rparr>
           | (Inr response, cs) \<Rightarrow>
               (case response_text response of
                  Inl e \<Rightarrow> \<lparr>result = Inl e, calls = cs, files = fs\<rparr>
                | Inr text_response \<Rightarrow>
                    (case detect_in_text w fs output_json_path text_response of
                       (res, fs') \<Rightarrow> \<lparr>result = res, calls = cs, files = fs'\<rparr>))))"

section \<open>app.py: the stored hotspots\<close>

text \<open>\<^verbatim>\<open>os.path.join\<close> of two components on a POSIX system.\<close>

definition os_path_join :: "string \<Rightarrow> string \<Rightarrow> string" where
  "os_path_join a b =
     (if b \<noteq> [] \<and> hd b = CHR ''/'' then b
      else if a = [] \<or> last a = CHR ''/'' then a @ b
      else a @ ''/'' @ b)"

definition PROCESSED_FOLDER :: string where
  "PROCESSED_FOLDER = ''static/processed''"

text \<open>Lines 134 and 144: the path of the record of a session.\<close>

definition json_path :: "string \<Rightarrow> string" where
  "json_path session_id = os_path_join PROCESSED_FOLDER (session_id @ ''.json'')"

text \<open>Lines 132 to 139: the body of the answer, or the exception of \<^verbatim>\<open>json.load\<close>.\<close>

definition get_data :: "'img world \<Rightarrow> filesystem \<Rightarrow> string \<Rightarrow> error + json" where
  "get_data w fs session_id =
     (case fs (json_path session_id) of
        Some file_content \<Rightarrow> json_load w file_content
      | None \<Rightarrow> Inr (JArray []))"

text \<open>
  Lines 141 to 147: \<^verbatim>\<open>request.json\<close> is written over the file of the session; the answer
  is the status object.
\<close>

definition save_data :: "'img world \<Rightarrow> filesystem \<Rightarrow> string \<Rightarrow> json \<Rightarrow> filesystem \<times> json" where
  "save_data w fs session_id data =
     (fs(json_path session_id \<mapsto> json_dump w data),
      JObject [(ascii ''status'', JString (ascii ''success''))])"

section \<open>The rules of the specification\<close>

text \<open>
  The label rule in the words of the specification: the single letter at position \<open>i\<close>
  below 26, and the letters at \<open>i div 26 - 1\<close> and \<open>i mod 26\<close> from 26 on.
\<close>

definition spec_label :: "nat \<Rightarrow> string" where
  "spec_label i =
     (if i < 26 then [alphabet ! i] else [alphabet ! (i div 26 - 1), alphabet ! (i mod 26)])"

text \<open>The hotspots of a list of points that is already in order, numbered from \<open>i\<close>.\<close>

definition labelled :: "nat \<Rightarrow> (pyfloat \<times> pyfloat) list \<Rightarrow> hotspot list" where
  "labelled i points =
     map (\<lambda>(k, p). building k (spec_label k) (fst p) (snd p)) (zip [i ..< i + length points] points)"

text \<open>
  The coordinate form in the words of the specification: an opening bracket, a number,
  a comma, a number and a closing bracket, with optional blanks around each number
  inside the brackets. A number is a run of digits, optionally followed by a dot and a
  second run of digits.
\<close>

definition digits :: "str \<Rightarrow> bool" where
  "digits s = (s \<noteq> [] \<and> list_all is_digit s)"

definition numeric_literal :: "str \<Rightarrow> bool" where
  "numeric_literal s = (digits s \<or> (\<exists>ip fp. digits ip \<and> digits fp \<and> s = ip @ ascii ''.'' @ fp))"

definition blanks :: "str \<Rightarrow> bool" where
  "blanks s = list_all is_space s"

definition coordinate_form :: "str \<Rightarrow> str \<Rightarrow> str \<Rightarrow> bool" where
  "coordinate_form s y x =
     (numeric_literal y \<and> numeric_literal x \<and>
      (\<exists>a b c d. blanks a \<and> blanks b \<and> blanks c \<and> blanks d \<and>
                 s = ascii ''['' @ a @ y @ b @ ascii '','' @ c @ x @ d @ ascii '']''))"

text \<open>A text with no substring of the coordinate form.\<close>

definition no_coordinate :: "str \<Rightarrow> bool" where
  "no_coordinate g = (\<not> (\<exists>u s v y x. g = u @ s @ v \<and> coordinate_form s y x))"

text \<open>
  A text cut at its coordinate forms: the text before the first one, then each form
  \<open>s\<close> with its two numbers \<open>y\<close> and \<open>x\<close> and the text \<open>g\<close> that follows it.
\<close>

fun layout :: "str \<Rightarrow> (str \<times> str \<times> str \<times> str) list \<Rightarrow> str" where
  "layout g0 [] = g0"
| "layout g0 ((s, y, x, g) # items) = g0 @ s @ layout g items"

text \<open>
  The number a run of decimal digits denotes, the most significant digit first, and the
  number of a literal: its digits before the dot, plus its digits after the dot divided
  by the power of ten of their count.
\<close>

fun positional :: "nat list \<Rightarrow> nat" where
  "positional [] = 0"
| "positional (d # ds) = d * 10 ^ length ds + positional ds"

definition decimal_number :: "str \<Rightarrow> str \<Rightarrow> rat" where
  "decimal_number ip fp =
     of_nat (positional (map digit_value ip))
       + of_nat (positional (map digit_value fp)) / 10 ^ length fp"

definition number_of :: "str \<Rightarrow> rat" where
  "number_of s =
     decimal_number (takeWhile (\<lambda>c. c \<noteq> of_char CHR ''.'') s)
                    (drop 1 (dropWhile (\<lambda>c. c \<noteq> of_char CHR ''.'') s))"

text \<open>
  The string form of a non-negative integer: its decimal numeral, in ASCII digits, with
  no leading zero.
\<close>

definition decimal_numeral :: "string \<Rightarrow> nat \<Rightarrow> bool" where
  "decimal_numeral s n =
     (s \<noteq> [] \<and> list_all (\<lambda>c. c \<in> set ''0123456789'') s \<and> (hd s = CHR ''0'' \<longrightarrow> s = ''0'')
      \<and> positional (map (\<lambda>c. of_char c - 48) s) = n)"

section \<open>Sequences of requests\<close>

text \<open>Save requests served one after the other: the files they leave.\<close>

fun run_saves :: "'img world \<Rightarrow> filesystem \<Rightarrow> (string \<times> json) list \<Rightarrow> filesystem" where
  "run_saves w fs [] = fs"
| "run_saves w fs ((session_id, data) # requests) =
     run_saves w (fst (save_data w fs session_id data)) requests"

section \<open>Sample runs\<close>

text \<open>
  A response in three parts with three points, out of order in \<open>x\<close> and two of them
  with the same \<open>x\<close>; a world whose primary
  model is unavailable and whose backup model gives that response.
\<close>

definition demo_text :: str where
  "demo_text = ascii ''[{point: [237.5, 500]}, {point: [ 0 ,0.1 ]}, {point: [10,500]}]''"

definition demo_response :: response where
  "demo_response = Response (Some [Candidate (Some (Content (Some
     [Part (Some (ascii ''[{point: [237.5, 500]}, '')), Part None,
      Part (Some (ascii ''{point: [ 0 ,0.1 ]}, {point: [10,500]}]''))])))])"

definition demo_world :: "nat world" where
  "demo_world =
     \<lparr>pil_open = (\<lambda>p. Inr 4096), pil_copy = (\<lambda>i. Inr i), pil_thumbnail = (\<lambda>i s. Inr (min i (fst s))),
      generate_content = (\<lambda>m p i. if m = primary_model then Inl (Raised ''unavailable'')
                                     else Inr demo_response),
      json_dump = (\<lambda>j. if j = JArray [] then ascii ''[]'' else ascii ''null''),
      json_load = (\<lambda>s. if s = ascii ''[]'' then Inr (JArray []) else Inl JSONDecodeError)\<rparr>"

definition demo_buildings :: "hotspot list" where
  "demo_buildings =
     [\<lparr>id_str = ''0'', label = ''A'',
       yaw = Fin (- (6331779601106207 / 35184372088832)), pitch = Fin 90,
       y_norm = Fin 0, x_norm = Fin (3602879701896397 / 36028797018963968)\<rparr>,
      \<lparr>id_str = ''1'', label = ''B'', yaw = Fin 0, pitch = Fin (189 / 4),
       y_norm = Fin (475 / 2), x_norm = Fin 500\<rparr>,
      \<lparr>id_str = ''2'', label = ''C'', yaw = Fin 0,
       pitch = Fin (6206523236469965 / 70368744177664),
       y_norm = Fin 10, x_norm = Fin 500\<rparr>]"

text \<open>
  A response with 703 points, and the sample world with that response from the backup
  model.
\<close>

definition crowded_text :: str where
  "crowded_text = concat (replicate 703 (ascii ''[1,1]''))"

definition crowded_response :: response where
  "crowded_response = Response (Some [Candidate (Some (Content (Some [Part (Some crowded_text)])))])"

definition crowded_world :: "nat world" where
  "crowded_world = demo_world\<lparr>generate_content :=
     (\<lambda>m p i. if m = primary_model then Inl (Raised ''unavailable'') else Inr crowded_response)\<rparr>"

text \<open>
  A response with twelve points, all at the same place, and the sample world with that
  response from the backup model.
\<close>

definition dozen_text :: str where
  "dozen_text = concat (replicate 12 (ascii ''[1,1]''))"

definition dozen_response :: response where
  "dozen_response = Response (Some [Candidate (Some (Content (Some [Part (Some dozen_text)])))])"

definition dozen_world :: "nat world" where
  "dozen_world = demo_world\<lparr>generate_content :=
     (\<lambda>m p i. if m = primary_model then Inl (Raised ''unavailable'') else Inr dozen_response)\<rparr>"

text \<open>
  A response text in another script: an opening bracket, the Arabic-Indic digits one
  and two, a comma, an ideographic space (U+3000), the Arabic-Indic digits three and
  four, a dot, the Arabic-Indic digit five, and a closing bracket.
\<close>

definition script_text :: str where
  "script_text = [91, 1633, 1634, 44, 12288, 1635, 1636, 46, 1637, 93]"

definition script_items :: "(str \<times> str \<times> str \<times> str) list" where
  "script_items = [(script_text, [1633, 1634], [1635, 1636, 46, 1637], [])]"

text \<open>A world in which the image opens and its pixels cannot be decoded.\<close>

definition broken_world :: "nat world" where
  "broken_world = demo_world\<lparr>pil_copy := (\<lambda>i. Inl (Raised ''image file is truncated''))\<rparr>"

text \<open>A world in which neither model answers.\<close>

definition silent_world :: "nat world" where
  "silent_world = demo_world\<lparr>generate_content := (\<lambda>m p i. Inl (Raised ''unavailable''))\<rparr>"

text \<open>The sample response text, cut at its three coordinate forms.\<close>

definition demo_items :: "(str \<times> str \<times> str \<times> str) list" where
  "demo_items =
     [(ascii ''[237.5, 500]'', ascii ''237.5'', ascii ''500'', ascii ''}, {point: ''),
      (ascii ''[ 0 ,0.1 ]'', ascii ''0'', ascii ''0.1'', ascii ''}, {point: ''),
      (ascii ''[10,500]'', ascii ''10'', ascii ''500'', ascii ''}]'')]"

text \<open>
  The sample hotspots as the editor sends them back, the text that \<^verbatim>\<open>json.dump\<close> with
  \<^verbatim>\<open>indent=2\<close> writes for them, and a world whose \<^verbatim>\<open>json\<close> module is known at these two
  values.
\<close>

definition demo_data :: json where
  "demo_data = JArray (map hotspot_json demo_buildings)"

definition demo_file :: str where
  \<open>demo_file = ascii
     ''[\<newline>  {\<newline>    "id": "0",\<newline>    "label": "A",\<newline>    "yaw": -179.96,\<newline>    "pitch": 90.0,\<newline>    "y_norm": 0.0,\<newline>    "x_norm": 0.1\<newline>  },\<newline>  {\<newline>    "id": "1",\<newline>    "label": "B",\<newline>    "yaw": 0.0,\<newline>    "pitch": 47.25,\<newline>    "y_norm": 237.5,\<newline>    "x_norm": 500.0\<newline>  },\<newline>  {\<newline>    "id": "2",\<newline>    "label": "C",\<newline>    "yaw": 0.0,\<newline>    "pitch": 88.2,\<newline>    "y_norm": 10.0,\<newline>    "x_norm": 500.0\<newline>  }\<newline>]''\<close>

definition store_world :: "nat world" where
  "store_world = demo_world
     \<lparr>json_dump := (\<lambda>j. if j = demo_data then demo_file
                         else if j = JArray [] then ascii ''[]'' else ascii ''null''),
      json_load := (\<lambda>s. if s = demo_file then Inr demo_data
                         else if s = ascii ''[]'' then Inr (JArray []) else Inl JSONDecodeError)\<rparr>"

section \<open>Labels\<close>

lemma length_alphabet: "length alphabet = 26"
  by (simp add: alphabet_def)

lemma getitem_alphabet_in: "k < 26 \<Longrightarrow> getitem alphabet (int k) = Inr (alphabet ! k)"
  by (simp add: getitem_def length_alphabet Let_def)

lemma getitem_alphabet_out: "26 \<le> k \<Longrightarrow> getitem alphabet (int k) = Inl IndexError"
  by (simp add: getitem_def length_alphabet Let_def)

lemma idx_high: "26 \<le> i \<Longrightarrow> int i div 26 - 1 = int (i div 26 - 1)"
  by (simp add: zdiv_int of_nat_diff)

lemma idx_low: "int i mod 26 = int (i mod 26)"
  by (simp add: zmod_int)

lemma label_text_in: "i < 702 \<Longrightarrow> label_text i = Inr (spec_label i)"
proof (cases "i < 26")
  case True
  then show ?thesis
    by (simp add: label_text_def spec_label_def getitem_alphabet_in)
next
  case False
  assume "i < 702"
  with False have h: "i div 26 - 1 < 26" "i mod 26 < 26" "26 \<le> i"
    by (simp_all add: less_diff_conv div_less_iff_less_mult)
  show ?thesis
    using False h
    by (simp add: label_text_def spec_label_def idx_high idx_low getitem_alphabet_in
             del: of_nat_diff)
qed

lemma label_text_out: "702 \<le> i \<Longrightarrow> label_text i = Inl IndexError"
proof -
  assume a: "702 \<le> i"
  then have "26 \<le> i div 26 - 1"
    by arith
  moreover from a have "26 \<le> i" by simp
  ultimately show ?thesis
    by (simp add: label_text_def idx_high getitem_alphabet_out del: of_nat_diff)
qed

lemma labelled_Nil: "labelled i [] = []"
  by (simp add: labelled_def)

lemma labelled_Cons:
  "labelled i (p # ps) = building i (spec_label i) (fst p) (snd p) # labelled (Suc i) ps"
proof -
  have "i < i + length (p # ps)"
    by simp
  then have "[i ..< i + length (p # ps)] = i # [Suc i ..< i + length (p # ps)]"
    by (rule upt_conv_Cons)
  moreover have "i + length (p # ps) = Suc i + length ps"
    by simp
  ultimately have "zip [i ..< i + length (p # ps)] (p # ps)
      = (i, p) # zip [Suc i ..< Suc i + length ps] ps"
    by (simp del: upt_Suc)
  then show ?thesis
    unfolding labelled_def by simp
qed

lemma enumerate_points_in:
  "i + length points \<le> 702 \<Longrightarrow>
     enumerate_points i points acc = Inr (acc @ labelled i points)"
proof (induction points arbitrary: i acc)
  case Nil
  then show ?case by (simp add: labelled_Nil)
next
  case (Cons p ps)
  obtain norm_y norm_x where p: "p = (norm_y, norm_x)" by (cases p)
  from Cons.prems have "i < 702" and "Suc i + length ps \<le> 702" by simp_all
  then show ?case
    by (simp add: p label_text_in Cons.IH labelled_Cons)
qed

lemma enumerate_points_out:
  "points \<noteq> [] \<Longrightarrow> 702 < i + length points \<Longrightarrow>
     enumerate_points i points acc = Inl IndexError"
proof (induction points arbitrary: i acc)
  case Nil
  then show ?case by simp
next
  case (Cons p ps)
  obtain norm_y norm_x where p: "p = (norm_y, norm_x)" by (cases p)
  show ?case
  proof (cases "702 \<le> i")
    case True
    then show ?thesis by (simp add: p label_text_out)
  next
    case False
    with Cons.prems have "ps \<noteq> []" and "702 < Suc i + length ps" by auto
    with False show ?thesis
      by (simp add: p label_text_in Cons.IH)
  qed
qed

lemma length_labelled: "length (labelled i points) = length points"
  by (simp add: labelled_def)

lemma nth_labelled:
  "k < length points \<Longrightarrow>
     labelled i points ! k = building (i + k) (spec_label (i + k)) (fst (points ! k)) (snd (points ! k))"
  by (simp add: labelled_def)

lemma sort_and_label_in:
  "length points \<le> 702 \<Longrightarrow> sort_and_label points = Inr (labelled 0 (sort_key snd points))"
  by (simp add: sort_and_label_def enumerate_points_in)

lemma sort_and_label_out:
  "702 < length points \<Longrightarrow> sort_and_label points = Inl IndexError"
proof -
  assume "702 < length points"
  moreover have "length (sort_key snd points) = length points"
    by (rule length_sort)
  ultimately have "sort_key snd points \<noteq> []" and "702 < 0 + length (sort_key snd points)"
    by (fastforce, simp)
  then show ?thesis
    unfolding sort_and_label_def by (rule enumerate_points_out)
qed

lemma sort_and_label_Inr:
  "sort_and_label points = Inr hs \<Longrightarrow> length points \<le> 702 \<and> hs = labelled 0 (sort_key snd points)"
  by (cases "length points \<le> 702") (simp_all add: sort_and_label_in sort_and_label_out)

lemma demo_response_text: "response_text demo_response = Inr demo_text"
  by (simp add: response_text_def demo_response_def demo_text_def)

lemma demo_findall:
  "findall demo_text = [((ascii ''237.5''), (ascii ''500'')), ((ascii ''0''), (ascii ''0.1'')), ((ascii ''10''), (ascii ''500''))]"
  unfolding demo_text_def by code_simp

lemma demo_points:
  "parse_points [((ascii ''237.5''), (ascii ''500'')), ((ascii ''0''), (ascii ''0.1'')), ((ascii ''10''), (ascii ''500''))]
     = [(Fin (475 / 2), Fin 500), (Fin 0, Fin (3602879701896397 / 36028797018963968)),
        (Fin 10, Fin 500)]"
  by code_simp

lemma demo_sorted:
  "sort_key snd [(Fin (475 / 2), Fin 500), (Fin 0, Fin (3602879701896397 / 36028797018963968)),
                 (Fin 10, Fin 500)]
     = [(Fin 0, Fin (3602879701896397 / 36028797018963968)), (Fin (475 / 2), Fin 500),
        (Fin 10, Fin 500)]"
  by (simp add: less_eq_pyfloat_def)

lemma demo_labelled:
  "enumerate_points 0 [(Fin 0, Fin (3602879701896397 / 36028797018963968)),
                       (Fin (475 / 2), Fin 500), (Fin 10, Fin 500)] []
     = Inr demo_buildings"
  unfolding demo_buildings_def by code_simp

lemma demo_sort_and_label: "sort_and_label (parse_points (findall demo_text)) = Inr demo_buildings"
  unfolding demo_findall demo_points sort_and_label_def demo_sorted by (rule demo_labelled)

lemma demo_text_nonempty: "demo_text \<noteq> []"
  by (simp add: demo_text_def)

lemma demo_matches: "findall demo_text \<noteq> []"
  by (simp add: demo_findall)

lemma demo_detect:
  "fst (detect_in_text w fs out demo_text) = Inr demo_buildings"
  by (simp add: detect_in_text_def demo_sort_and_label demo_text_nonempty demo_matches Let_def)

lemma demo_load: "load_image demo_world p = Inr 2048"
  by (simp add: load_image_def demo_world_def)

lemma demo_call:
  "call_model demo_world prompt_text ai_img =
     (Inr demo_response, [(primary_model, prompt_text, ai_img), (backup_model, prompt_text, ai_img)])"
  by (simp add: call_model_def demo_world_def primary_model_def backup_model_def)

lemma demo_run:
  "result (analyze_panorama demo_world fs p prompt_text out) = Inr demo_buildings"
  using demo_detect [of demo_world fs out]
  by (simp add: analyze_panorama_def demo_load demo_call demo_response_text case_prod_beta)

lemma detect_in_text_Inr:
  assumes "fst (detect_in_text w fs out t) = Inr hs"
  shows "length (parse_points (findall t)) \<le> 702
         \<and> hs = labelled 0 (sort_key snd (parse_points (findall t)))"
proof (cases "t = [] \<or> findall t = []")
  case True
  then have "findall t = []" by auto
  with True assms show ?thesis
    by (auto simp: detect_in_text_def labelled_Nil Let_def split: if_splits)
next
  case False
  with assms have "sort_and_label (parse_points (findall t)) = Inr hs"
    by (auto simp: detect_in_text_def Let_def split: sum.splits if_splits)
  then show ?thesis
    by (simp add: sort_and_label_Inr)
qed

lemma analyze_result_Inr:
  assumes "result (analyze_panorama w fs p prompt_text out) = Inr hs"
  shows "hs = [] \<or>
         (\<exists>ai_img response cs t.
            load_image w p = Inr ai_img \<and>
            call_model w prompt_text ai_img = (Inr response, cs) \<and>
            response_text response = Inr t \<and>
            fst (detect_in_text w fs out t) = Inr hs)"
  using assms
  by (auto simp: analyze_panorama_def split: sum.splits prod.splits)

lemma analyze_result_labelled:
  assumes "result (analyze_panorama w fs p prompt_text out) = Inr hs"
  shows "\<exists>points. length points \<le> 702 \<and> hs = labelled 0 (sort_key snd points)"
proof -
  from analyze_result_Inr [OF assms] show ?thesis
  proof
    assume "hs = []"
    then have "length ([] :: (pyfloat \<times> pyfloat) list) \<le> 702 \<and> hs = labelled 0 (sort_key snd [])"
      by (simp add: labelled_Nil)
    then show ?thesis by blast
  next
    assume "\<exists>ai_img response cs t.
            load_image w p = Inr ai_img \<and>
            call_model w prompt_text ai_img = (Inr response, cs) \<and>
            response_text response = Inr t \<and>
            fst (detect_in_text w fs out t) = Inr hs"
    then obtain t where "fst (detect_in_text w fs out t) = Inr hs" by blast
    from detect_in_text_Inr [OF this] show ?thesis by blast
  qed
qed

text \<open>
  C1. In the list a detection run returns, the label at position \<open>i\<close> is the single letter
  \<open>alphabet[i]\<close> when \<open>i < 26\<close> and \<open>alphabet[i div 26 - 1]\<close> followed by
  \<open>alphabet[i mod 26]\<close> from 26 on, and it is the label that lines 95 to 98 compute for
  \<open>i\<close>. Positions 26, 27, 51 and 52 get AA, AB, AZ and BA.
\<close>

theorem label_by_position:
  assumes "result (analyze_panorama w fs image_path prompt_text output_json_path) = Inr buildings_data"
    and "i < length buildings_data"
  shows "label (buildings_data ! i)
           = (if i < 26 then [alphabet ! i] else [alphabet ! (i div 26 - 1), alphabet ! (i mod 26)])
         \<and> label_text i = Inr (label (buildings_data ! i))
         \<and> label_text 26 = Inr ''AA'' \<and> label_text 27 = Inr ''AB''
         \<and> label_text 51 = Inr ''AZ'' \<and> label_text 52 = Inr ''BA''"
proof -
  from analyze_result_labelled [OF assms(1)] obtain points where
    len: "length points \<le> 702" and hs: "buildings_data = labelled 0 (sort_key snd points)"
    by blast
  from assms(2) hs have i: "i < length (sort_key snd points)"
    by (simp add: length_labelled)
  then have "i < 702" using len by simp
  have lbl: "label (buildings_data ! i) = spec_label i"
    using i by (simp add: hs nth_labelled building_def)
  have fixed: "label_text 26 = Inr ''AA'' \<and> label_text 27 = Inr ''AB''
         \<and> label_text 51 = Inr ''AZ'' \<and> label_text 52 = Inr ''BA''"
    by (simp add: label_text_in spec_label_def alphabet_def)
  show ?thesis
    using lbl fixed label_text_in [OF \<open>i < 702\<close>] by (simp add: spec_label_def)
qed

theorem label_by_position_witness:
  "result (analyze_panorama demo_world Map.empty ''pano.jpg'' ''prompt'' None) = Inr demo_buildings
   \<and> (1::nat) < length demo_buildings
   \<and> label (demo_buildings ! 1) = ''B''
   \<and> label_text 1 = Inr ''B''"
proof -
  have run: "result (analyze_panorama demo_world Map.empty ''pano.jpg'' ''prompt'' None)
               = Inr demo_buildings"
    by (rule demo_run)
  have len: "(1::nat) < length demo_buildings"
    by (simp add: demo_buildings_def)
  from label_by_position [OF run len] run len show ?thesis
    by (simp add: alphabet_def)
qed

section \<open>More points than labels\<close>

lemma match_here_unit: "match_here ((ascii ''[1,1]'') @ r) = Some (((ascii ''1''), (ascii ''1'')), r)"
  by (simp add: match_here_def skip_spaces_def take_number_def is_digit_def digit_zeros_def
        is_space_def space_points_def Let_def)

lemma findall_units: "findall (concat (replicate n (ascii ''[1,1]''))) = replicate n ((ascii ''1''), (ascii ''1''))"
proof (induction n)
  case 0
  show ?case by simp
next
  case (Suc n)
  have "findall ((ascii ''[1,1]'') @ concat (replicate n (ascii ''[1,1]'')))
          = ((ascii ''1''), (ascii ''1'')) # findall (concat (replicate n (ascii ''[1,1]'')))"
    using match_here_unit [of "concat (replicate n (ascii ''[1,1]''))"]
    by (simp add: findall.simps(2))
  with Suc show ?case by simp
qed

lemma py_float_one: "py_float (ascii ''1'') = Inr (Fin 1)"
  by code_simp

lemma parse_units: "parse_points (replicate n ((ascii ''1''), (ascii ''1''))) = replicate n (Fin 1, Fin 1)"
  by (induction n) (simp_all add: py_float_one [simplified])

lemma crowded_points: "length (parse_points (findall crowded_text)) = 703"
  unfolding crowded_text_def findall_units parse_units by simp

lemma crowded_response_text: "response_text crowded_response = Inr crowded_text"
  by (simp add: response_text_def crowded_response_def)

lemma crowded_text_nonempty: "crowded_text \<noteq> []"
  by (simp add: crowded_text_def)

lemma crowded_load: "load_image crowded_world p = Inr 2048"
  by (simp add: load_image_def crowded_world_def demo_world_def)

lemma crowded_call:
  "call_model crowded_world prompt_text ai_img =
     (Inr crowded_response, [(primary_model, prompt_text, ai_img), (backup_model, prompt_text, ai_img)])"
  by (simp add: call_model_def crowded_world_def primary_model_def backup_model_def)

lemma analyze_chain:
  assumes "load_image w p = Inr ai_img"
    and "call_model w prompt_text ai_img = (Inr response, cs)"
    and "response_text response = Inr t"
  shows "analyze_panorama w fs p prompt_text out =
           \<lparr>result = fst (detect_in_text w fs out t), calls = cs,
            files = snd (detect_in_text w fs out t)\<rparr>"
  using assms by (simp add: analyze_panorama_def case_prod_beta)

lemma detect_in_text_raise:
  assumes "702 < length (parse_points (findall t))"
  shows "detect_in_text w fs out t = (Inl IndexError, fs)"
proof -
  from assms have "findall t \<noteq> []" by auto
  then have "t \<noteq> []" by auto
  with \<open>findall t \<noteq> []\<close> assms show ?thesis
    by (simp add: detect_in_text_def Let_def sort_and_label_out)
qed

text \<open>
  C2. Every position from 0 to 701 has a label, and position 702 has none: there
  \<open>702 div 26 - 1 = 26\<close> is past the end of the alphabet and lines 95 to 98 raise
  IndexError. A run whose parsed point list has more than 702 points labels the first
  702 and then leaves \<open>analyze_panorama\<close> with that IndexError: it returns no list and
  writes no file.
\<close>

theorem labelling_raises_beyond_702:
  assumes "load_image w image_path = Inr ai_img"
    and "call_model w prompt_text ai_img = (Inr response, cs)"
    and "response_text response = Inr text_response"
    and "702 < length (parse_points (findall text_response))"
  shows "result (analyze_panorama w fs image_path prompt_text output_json_path) = Inl IndexError
         \<and> files (analyze_panorama w fs image_path prompt_text output_json_path) = fs
         \<and> (\<forall>i<702. \<exists>s. label_text i = Inr s)
         \<and> label_text 702 = Inl IndexError
         \<and> getitem alphabet (702 div 26 - 1) = Inl IndexError
         \<and> (\<exists>done. enumerate_points 0 (take 702 (sort_key snd (parse_points (findall text_response)))) []
                      = Inr done \<and> length done = 702)"
proof -
  let ?a = "analyze_panorama w fs image_path prompt_text output_json_path"
  have run: "result ?a = Inl IndexError \<and> files ?a = fs"
    by (simp add: analyze_chain [OF assms(1-3)] detect_in_text_raise [OF assms(4)])
  have ok: "\<forall>i<702. \<exists>s. label_text i = Inr s"
    by (simp add: label_text_in)
  have bad: "label_text 702 = Inl IndexError"
    by (simp add: label_text_out)
  have idx: "getitem alphabet (702 div 26 - 1) = Inl IndexError"
    using getitem_alphabet_out [of 26] by simp
  let ?first = "take 702 (sort_key snd (parse_points (findall text_response)))"
  from assms(4) have len: "length ?first = 702" by simp
  then have "enumerate_points 0 ?first [] = Inr ([] @ labelled 0 ?first)"
    by (intro enumerate_points_in) simp
  then have "enumerate_points 0 ?first [] = Inr (labelled 0 ?first) \<and> length (labelled 0 ?first) = 702"
    using len by (simp add: length_labelled)
  then have part: "\<exists>done. enumerate_points 0 ?first [] = Inr done \<and> length done = 702"
    by blast
  from run ok bad idx part show ?thesis by blast
qed

theorem labelling_raises_beyond_702_witness:
  "load_image crowded_world ''pano.jpg'' = Inr 2048
   \<and> response_text crowded_response = Inr crowded_text
   \<and> 702 < length (parse_points (findall crowded_text))
   \<and> result (analyze_panorama crowded_world Map.empty ''pano.jpg'' ''prompt'' None) = Inl IndexError"
proof -
  have four: "702 < length (parse_points (findall crowded_text))"
    by (simp add: crowded_points)
  from labelling_raises_beyond_702 [OF crowded_load crowded_call crowded_response_text four]
  show ?thesis
    using crowded_load crowded_response_text four by blast
qed

section \<open>Order and positions\<close>

lemma positional_snoc: "positional (ds @ [d]) = 10 * positional ds + d"
  by (induction ds) simp_all

lemma foldl_positional:
  "foldl (\<lambda>n c. 10 * n + f c) a cs = a * 10 ^ length cs + positional (map f cs)"
  by (induction cs arbitrary: a) (simp_all add: algebra_simps)

lemma digit_chars:
  "digit_char 0 = CHR ''0''" "digit_char (Suc 0) = CHR ''1''" "digit_char 2 = CHR ''2''"
  "digit_char 3 = CHR ''3''" "digit_char 4 = CHR ''4''" "digit_char 5 = CHR ''5''"
  "digit_char 6 = CHR ''6''" "digit_char 7 = CHR ''7''" "digit_char 8 = CHR ''8''"
  "digit_char 9 = CHR ''9''"
  by code_simp+

lemma digit_char_digit:
  "n < 10 \<Longrightarrow> digit_char n \<in> set ''0123456789'' \<and> of_char (digit_char n) - 48 = n
     \<and> (digit_char n = CHR ''0'' \<longrightarrow> n = 0)"
proof -
  assume "n < 10"
  then consider "n = 0" | "n = 1" | "n = 2" | "n = 3" | "n = 4" | "n = 5" | "n = 6"
    | "n = 7" | "n = 8" | "n = 9"
    by atomize_elim arith
  then show ?thesis
    by cases (simp_all add: digit_chars)
qed

lemma str_nat_numeral: "decimal_numeral (str_nat n) n"
proof (induction n rule: str_nat.induct)
  case (1 n)
  show ?case
  proof (cases "n < 10")
    case True
    with digit_char_digit [OF True] show ?thesis
      by (simp add: str_nat.simps [of n] decimal_numeral_def)
  next
    case False
    let ?s = "str_nat (n div 10)"
    from 1 [OF False] have ih: "decimal_numeral ?s (n div 10)" .
    from False have pos: "0 < n div 10" by simp
    have nz: "hd ?s \<noteq> CHR ''0''"
    proof
      assume "hd ?s = CHR ''0''"
      with ih have "?s = ''0''" by (simp add: decimal_numeral_def)
      with ih have "n div 10 = 0" by (simp add: decimal_numeral_def)
      with pos show False by simp
    qed
    from ih have ne: "?s \<noteq> []" by (simp add: decimal_numeral_def)
    have d: "n mod 10 < 10" by simp
    have "str_nat n = ?s @ [digit_char (n mod 10)]"
      using False by (simp add: str_nat.simps [of n])
    moreover have "positional (map (\<lambda>c. of_char c - 48) (?s @ [digit_char (n mod 10)])) = n"
      using ih digit_char_digit [OF d] by (simp add: decimal_numeral_def positional_snoc)
    ultimately show ?thesis
      using ih nz ne digit_char_digit [OF d] by (simp add: decimal_numeral_def)
  qed
qed

lemma digit_char_inverse:
  assumes "c \<in> set ''0123456789''"
  shows "digit_char (of_char c - 48) = c \<and> (of_char c :: nat) - 48 < 10
         \<and> (c \<noteq> CHR ''0'' \<longrightarrow> 0 < (of_char c :: nat) - 48)"
proof -
  from assms consider "c = CHR ''0''" | "c = CHR ''1''" | "c = CHR ''2''" | "c = CHR ''3''"
    | "c = CHR ''4''" | "c = CHR ''5''" | "c = CHR ''6''" | "c = CHR ''7''" | "c = CHR ''8''"
    | "c = CHR ''9''"
    by atomize_elim simp
  then show ?thesis
    by cases (simp_all add: digit_chars)
qed

lemma positional_pos: "0 < d \<Longrightarrow> 0 < positional (d # ds)"
  by simp

lemma numeral_unique: "decimal_numeral s n \<Longrightarrow> s = str_nat n"
proof (induction s arbitrary: n rule: rev_induct)
  case Nil
  then show ?case by (simp add: decimal_numeral_def)
next
  case (snoc c xs)
  let ?f = "\<lambda>c :: char. (of_char c :: nat) - 48"
  let ?m = "positional (map ?f xs)"
  from snoc.prems have c: "c \<in> set ''0123456789''"
    and xs: "list_all (\<lambda>c. c \<in> set ''0123456789'') xs"
    and lead: "hd (xs @ [c]) = CHR ''0'' \<longrightarrow> xs @ [c] = ''0''"
    and n: "n = 10 * ?m + ?f c"
    by (simp_all add: decimal_numeral_def positional_snoc)
  note inv = digit_char_inverse [OF c]
  show ?case
  proof (cases xs)
    case Nil
    with n inv have "n < 10" and "digit_char n = c" by simp_all
    with Nil show ?thesis by (simp add: str_nat.simps [of n])
  next
    case (Cons x xs')
    with lead have x0: "x \<noteq> CHR ''0''" by auto
    from xs Cons have x: "x \<in> set ''0123456789''" by simp
    have "decimal_numeral xs ?m"
      using xs Cons x0 by (simp add: decimal_numeral_def)
    then have ih: "xs = str_nat ?m" by (rule snoc.IH)
    have "0 < ?f x" using digit_char_inverse [OF x] x0 by blast
    then have "0 < ?m" unfolding Cons by simp
    with n inv have big: "\<not> n < 10" and dv: "n div 10 = ?m" and md: "n mod 10 = ?f c"
      by simp_all
    have "str_nat n = str_nat (n div 10) @ [digit_char (n mod 10)]"
      using big by (simp add: str_nat.simps [of n])
    also have "\<dots> = xs @ [c]"
      using ih inv by (simp add: dv md)
    finally show ?thesis by simp
  qed
qed

lemma decimal_numeral_iff: "decimal_numeral s n \<longleftrightarrow> s = str_nat n"
  using numeral_unique str_nat_numeral by blast

lemma x_norm_labelled: "map x_norm (labelled i points) = map snd points"
  by (induction points arbitrary: i) (simp_all add: labelled_Nil labelled_Cons building_def)

lemma coords_labelled:
  "map (\<lambda>h. (y_norm h, x_norm h)) (labelled i points) = points"
  by (induction points arbitrary: i) (simp_all add: labelled_Nil labelled_Cons building_def)

lemma sorted_x_norm: "sorted (map x_norm (labelled i (sort_key snd points)))"
  by (simp add: x_norm_labelled sorted_sort_key)

lemma sort_key_units: "sort_key snd (replicate n (a, b :: pyfloat)) = replicate n (a, b)"
  by (rule sort_key_id_if_sorted) (simp add: sorted_replicate)

lemma units_detect:
  assumes "0 < n" and "n \<le> 702"
  shows "fst (detect_in_text w fs out (concat (replicate n (ascii ''[1,1]''))))
           = Inr (labelled 0 (replicate n (Fin 1, Fin 1)))"
proof -
  let ?t = "concat (replicate n (ascii ''[1,1]''))"
  have p: "parse_points (findall ?t) = replicate n (Fin 1, Fin 1)"
    unfolding findall_units by (rule parse_units)
  from assms(1) have "findall ?t \<noteq> []" and "?t \<noteq> []"
    unfolding findall_units by auto
  then show ?thesis
    using assms(2)
    by (simp add: detect_in_text_def Let_def p sort_and_label_in sort_key_units del: ascii_Cons)
qed

lemma dozen_response_text: "response_text dozen_response = Inr dozen_text"
  by (simp add: response_text_def dozen_response_def dozen_text_def)

lemma dozen_load: "load_image dozen_world p = Inr 2048"
  by (simp add: load_image_def dozen_world_def demo_world_def)

lemma dozen_call:
  "call_model dozen_world prompt_text ai_img =
     (Inr dozen_response, [(primary_model, prompt_text, ai_img), (backup_model, prompt_text, ai_img)])"
  by (simp add: call_model_def dozen_world_def primary_model_def backup_model_def)

lemma dozen_run:
  "result (analyze_panorama dozen_world fs p prompt_text out)
     = Inr (labelled 0 (replicate 12 (Fin 1, Fin 1)))"
  unfolding analyze_chain [OF dozen_load dozen_call dozen_response_text] dozen_text_def
  by (simp add: units_detect del: ascii_Cons)

lemma str_nat_samples:
  "str_nat 9 = ''9''" "str_nat 10 = ''10''" "str_nat 11 = ''11''" "str_nat 701 = ''701''"
  by code_simp+

text \<open>
  C5. The list a detection run returns is non-decreasing in \<open>x_norm\<close>. The element at
  position \<open>i\<close> has the id \<open>str(i)\<close>, which is the decimal numeral of \<open>i\<close> (ASCII digits,
  no leading zero, the value \<open>i\<close>) and the only string that is, and it has the label that
  lines 95 to 98 compute from \<open>i\<close> alone. The points of every \<open>x\<close> keep the order in which
  the parser found them in the response text: the sort is stable.
\<close>

theorem hotspots_sorted_and_positional:
  assumes "result (analyze_panorama w fs image_path prompt_text output_json_path) = Inr buildings_data"
  shows "sorted (map x_norm buildings_data)
         \<and> (\<forall>i<length buildings_data.
               id_str (buildings_data ! i) = str_nat i
               \<and> decimal_numeral (id_str (buildings_data ! i)) i
               \<and> (\<forall>s. decimal_numeral s i \<longrightarrow> s = id_str (buildings_data ! i))
               \<and> label_text i = Inr (label (buildings_data ! i)))
         \<and> (\<forall>ai_img response cs text_response k.
               load_image w image_path = Inr ai_img \<longrightarrow>
               call_model w prompt_text ai_img = (Inr response, cs) \<longrightarrow>
               response_text response = Inr text_response \<longrightarrow>
               filter (\<lambda>p. snd p = k) (map (\<lambda>h. (y_norm h, x_norm h)) buildings_data)
                 = filter (\<lambda>p. snd p = k) (parse_points (findall text_response)))"
proof -
  from analyze_result_labelled [OF assms] obtain points where
    len: "length points \<le> 702" and hs: "buildings_data = labelled 0 (sort_key snd points)"
    by blast
  have s: "sorted (map x_norm buildings_data)"
    unfolding hs by (rule sorted_x_norm)
  have p: "\<forall>i<length buildings_data.
               id_str (buildings_data ! i) = str_nat i
               \<and> decimal_numeral (id_str (buildings_data ! i)) i
               \<and> (\<forall>s. decimal_numeral s i \<longrightarrow> s = id_str (buildings_data ! i))
               \<and> label_text i = Inr (label (buildings_data ! i))"
  proof (intro allI impI)
    fix i assume "i < length buildings_data"
    then have i: "i < length (sort_key snd points)"
      by (simp add: hs length_labelled)
    with len have "i < 702" by simp
    with i have "id_str (buildings_data ! i) = str_nat i
               \<and> label_text i = Inr (label (buildings_data ! i))"
      by (simp add: hs nth_labelled building_def label_text_in)
    then show "id_str (buildings_data ! i) = str_nat i
               \<and> decimal_numeral (id_str (buildings_data ! i)) i
               \<and> (\<forall>s. decimal_numeral s i \<longrightarrow> s = id_str (buildings_data ! i))
               \<and> label_text i = Inr (label (buildings_data ! i))"
      by (simp add: decimal_numeral_iff)
  qed
  have t: "\<forall>ai_img response cs text_response k.
               load_image w image_path = Inr ai_img \<longrightarrow>
               call_model w prompt_text ai_img = (Inr response, cs) \<longrightarrow>
               response_text response = Inr text_response \<longrightarrow>
               filter (\<lambda>p. snd p = k) (map (\<lambda>h. (y_norm h, x_norm h)) buildings_data)
                 = filter (\<lambda>p. snd p = k) (parse_points (findall text_response))"
  proof (intro allI impI)
    fix ai_img response cs text_response k
    assume a: "load_image w image_path = Inr ai_img"
      "call_model w prompt_text ai_img = (Inr response, cs)"
      "response_text response = Inr text_response"
    from assms have "fst (detect_in_text w fs output_json_path text_response) = Inr buildings_data"
      by (simp add: analyze_chain [OF a])
    then have "buildings_data = labelled 0 (sort_key snd (parse_points (findall text_response)))"
      by (simp add: detect_in_text_Inr)
    then show "filter (\<lambda>p. snd p = k) (map (\<lambda>h. (y_norm h, x_norm h)) buildings_data)
                 = filter (\<lambda>p. snd p = k) (parse_points (findall text_response))"
      by (simp add: coords_labelled sort_key_stable)
  qed
  from s p t show ?thesis by blast
qed

lemma str_nat_2: "str_nat 2 = ''2''"
  by code_simp

theorem hotspots_sorted_and_positional_witness:
  "result (analyze_panorama demo_world Map.empty ''pano.jpg'' ''prompt'' None) = Inr demo_buildings
   \<and> parse_points (findall demo_text)
       = [(Fin (475 / 2), Fin 500), (Fin 0, Fin (3602879701896397 / 36028797018963968)),
          (Fin 10, Fin 500)]
   \<and> sorted (map x_norm demo_buildings)
   \<and> id_str (demo_buildings ! 2) = ''2''
   \<and> label_text 2 = Inr (label (demo_buildings ! 2))
   \<and> filter (\<lambda>p. snd p = Fin 500) (map (\<lambda>h. (y_norm h, x_norm h)) demo_buildings)
       = [(Fin (475 / 2), Fin 500), (Fin 10, Fin 500)]
   \<and> result (analyze_panorama dozen_world Map.empty ''pano.jpg'' ''prompt'' None)
       = Inr (labelled 0 (replicate 12 (Fin 1, Fin 1)))
   \<and> length (labelled 0 (replicate 12 (Fin 1, Fin 1))) = 12
   \<and> id_str (labelled 0 (replicate 12 (Fin 1, Fin 1)) ! 9) = ''9''
   \<and> id_str (labelled 0 (replicate 12 (Fin 1, Fin 1)) ! 10) = ''10''
   \<and> id_str (labelled 0 (replicate 12 (Fin 1, Fin 1)) ! 11) = ''11''
   \<and> decimal_numeral ''10'' 10 \<and> decimal_numeral ''11'' 11
   \<and> \<not> decimal_numeral '':'' 10 \<and> \<not> decimal_numeral ''010'' 10"
proof -
  have run: "result (analyze_panorama demo_world Map.empty ''pano.jpg'' ''prompt'' None)
               = Inr demo_buildings"
    by (rule demo_run)
  have pts: "parse_points (findall demo_text)
       = [(Fin (475 / 2), Fin 500), (Fin 0, Fin (3602879701896397 / 36028797018963968)),
          (Fin 10, Fin 500)]"
    unfolding demo_findall by (rule demo_points)
  note inst = hotspots_sorted_and_positional [OF run]
  from inst have s: "sorted (map x_norm demo_buildings)" by blast
  from inst have "\<forall>i<length demo_buildings.
               id_str (demo_buildings ! i) = str_nat i
               \<and> label_text i = Inr (label (demo_buildings ! i))" by blast
  moreover have "2 < length demo_buildings" by (simp add: demo_buildings_def)
  ultimately have p: "id_str (demo_buildings ! 2) = ''2''
     \<and> label_text 2 = Inr (label (demo_buildings ! 2))"
    using str_nat_2 by metis
  from inst have "filter (\<lambda>p. snd p = Fin 500) (map (\<lambda>h. (y_norm h, x_norm h)) demo_buildings)
                 = filter (\<lambda>p. snd p = Fin 500) (parse_points (findall demo_text))"
    using demo_load demo_call demo_response_text by blast
  then have t: "filter (\<lambda>p. snd p = Fin 500) (map (\<lambda>h. (y_norm h, x_norm h)) demo_buildings)
       = [(Fin (475 / 2), Fin 500), (Fin 10, Fin 500)]"
    by (simp add: pts)
  let ?hs = "labelled 0 (replicate 12 (Fin 1, Fin 1))"
  have run12: "result (analyze_panorama dozen_world Map.empty ''pano.jpg'' ''prompt'' None) = Inr ?hs"
    by (rule dozen_run)
  have len12: "length ?hs = 12"
    by (simp add: length_labelled)
  from hotspots_sorted_and_positional [OF run12]
  have all12: "\<forall>i<length ?hs. id_str (?hs ! i) = str_nat i \<and> decimal_numeral (id_str (?hs ! i)) i"
    by blast
  then have ids: "id_str (?hs ! 9) = ''9'' \<and> id_str (?hs ! 10) = ''10'' \<and> id_str (?hs ! 11) = ''11''"
    by (simp add: len12 str_nat_samples)
  from all12 have "decimal_numeral (id_str (?hs ! 10)) 10" and "decimal_numeral (id_str (?hs ! 11)) 11"
    by (simp_all add: len12 str_nat_numeral)
  with ids have num: "decimal_numeral ''10'' 10 \<and> decimal_numeral ''11'' 11"
    by simp
  have non: "\<not> decimal_numeral '':'' 10 \<and> \<not> decimal_numeral ''010'' 10"
    by (simp add: decimal_numeral_def)
  from run pts s p t run12 len12 ids num non show ?thesis by blast
qed

section \<open>Angles\<close>

lemma round_half_even_div_near:
  assumes "0 < d"
  shows "\<bar>2 * (n - round_half_even_div n d * d)\<bar> \<le> d"
proof -
  have r: "0 \<le> n mod d" "n mod d < d" using assms by simp_all
  have a: "n - (n div d) * d = n mod d"
    by (simp add: minus_div_mult_eq_mod)
  have b: "n - (n div d + 1) * d = n mod d - d"
    using a by (simp add: algebra_simps)
  have "round_half_even_div n d = n div d \<and> 2 * (n mod d) \<le> d
      \<or> round_half_even_div n d = n div d + 1 \<and> d \<le> 2 * (n mod d)"
    by (simp add: round_half_even_div_def Let_def)
  then consider (down) "round_half_even_div n d = n div d" "2 * (n mod d) \<le> d"
    | (up) "round_half_even_div n d = n div d + 1" "d \<le> 2 * (n mod d)"
    by blast
  then show ?thesis
  proof cases
    case down
    have e: "\<bar>2 * (n - round_half_even_div n d * d)\<bar> = \<bar>2 * (n mod d)\<bar>"
      by (simp only: down(1) a)
    have "\<bar>2 * x\<bar> \<le> d" if "0 \<le> x" "2 * x \<le> d" for x :: int
      using that by (simp add: abs_if)
    from this [OF r(1) down(2)] show ?thesis
      by (simp only: e)
  next
    case up
    have e: "\<bar>2 * (n - round_half_even_div n d * d)\<bar> = \<bar>2 * (n mod d - d)\<bar>"
      by (simp only: up(1) b)
    have "\<bar>2 * (x - d)\<bar> \<le> d" if "x < d" "d \<le> 2 * x" for x :: int
      using that by (simp add: abs_if)
    from this [OF r(2) up(2)] show ?thesis
      by (simp only: e)
  qed
qed

lemma py_round2_two_decimals:
  "\<exists>k :: int. py_round2 (Fin q) = to_double (of_int k / 100) \<and> \<bar>q - of_int k / 100\<bar> \<le> 1 / 200"
proof -
  obtain n d where nd: "quotient_of q = (n, d)" by (cases "quotient_of q")
  then have d: "0 < d" by (rule quotient_of_denom_pos)
  from nd have q: "q = of_int n / of_int d" by (rule quotient_of_div)
  have near: "\<bar>of_int m / of_int d - of_int k / (100::rat)\<bar> \<le> 1 / 200"
    if "\<bar>2 * (m * 100 - k * d)\<bar> \<le> d" for m k :: int
  proof -
    have "of_int m / of_int d - of_int k / (100::rat)
            = of_int (m * 100 - k * d) / (of_int d * 100)"
      using d by (simp add: field_simps)
    moreover have "\<bar>of_int (m * 100 - k * d) / (of_int d * 100 :: rat)\<bar>
            = of_int \<bar>m * 100 - k * d\<bar> / (of_int d * 100)"
      using d by (simp add: abs_divide)
    moreover have "(of_int \<bar>m * 100 - k * d\<bar> :: rat) * 2 \<le> of_int d"
    proof -
      from that have "\<bar>2\<bar> * \<bar>m * 100 - k * d\<bar> \<le> d" by (simp only: abs_mult)
      then have "\<bar>m * 100 - k * d\<bar> * 2 \<le> d" by simp
      then have "(of_int (\<bar>m * 100 - k * d\<bar> * 2) :: rat) \<le> of_int d"
        by (simp only: of_int_le_iff)
      then show ?thesis by simp
    qed
    ultimately show ?thesis
      using d by (simp add: field_simps)
  qed
  show ?thesis
  proof (cases "0 \<le> n")
    case True
    let ?k = "round_half_even_div (n * 100) d"
    have "py_round2 (Fin q) = to_double (of_int ?k / 100)"
      using True nd by simp
    moreover have "\<bar>q - of_int ?k / 100\<bar> \<le> 1 / 200"
      unfolding q using round_half_even_div_near [OF d, of "n * 100"] by (intro near) simp
    ultimately show ?thesis by blast
  next
    case False
    let ?k = "round_half_even_div (- n * 100) d"
    have "py_round2 (Fin q) = to_double (of_int (- ?k) / 100)"
      using False nd by simp
    moreover have "\<bar>q - of_int (- ?k) / 100\<bar> \<le> 1 / 200"
    proof -
      have "\<bar>2 * (- n * 100 - ?k * d)\<bar> \<le> d"
        by (rule round_half_even_div_near [OF d])
      moreover have "2 * (n * 100 - (- ?k) * d) = - (2 * (- n * 100 - ?k * d))"
        by (simp add: algebra_simps)
      ultimately have "\<bar>2 * (n * 100 - (- ?k) * d)\<bar> \<le> d"
        by (simp only: abs_minus)
      then show ?thesis unfolding q by (rule near)
    qed
    ultimately show ?thesis by blast
  qed
qed

lemma labelled_member:
  "h \<in> set (labelled i points) \<Longrightarrow>
     yaw h = py_round2 (yaw_of (x_norm h)) \<and> pitch h = py_round2 (pitch_of (y_norm h))"
  by (induction points arbitrary: i) (auto simp: labelled_Nil labelled_Cons building_def)

lemma boundary_yaw:
  "py_round2 (yaw_of (Fin 0)) = Fin (- 180) \<and> py_round2 (yaw_of (Fin 1000)) = Fin 180
   \<and> py_round2 (yaw_of (Fin 500)) = Fin 0 \<and> py_round2 (yaw_of (Fin 2000)) = Fin 540"
  by code_simp

lemma boundary_pitch:
  "py_round2 (pitch_of (Fin 0)) = Fin 90 \<and> py_round2 (pitch_of (Fin 1000)) = Fin (- 90)
   \<and> py_round2 (pitch_of (Fin 500)) = Fin 0 \<and> py_round2 (pitch_of (Fin 2000)) = Fin (- 270)"
  by code_simp

text \<open>
  C4. Every hotspot of a returned list has \<open>yaw = round((x / 1000.0) * 360.0 - 180.0, 2)\<close>
  and \<open>pitch = round(90.0 - (y / 1000.0) * 180.0, 2)\<close> of its own \<open>x_norm\<close> and \<open>y_norm\<close>, in
  double arithmetic. \<open>x = 0\<close> gives yaw -180, \<open>x = 1000\<close> yaw 180, \<open>y = 0\<close> pitch 90,
  \<open>y = 1000\<close> pitch -90, and \<open>x = y = 500\<close> yaw 0 and pitch 0. Nothing clamps the input:
  \<open>x = y = 2000\<close> is stored as it is, with yaw 540 and pitch -270. The rounding of a finite
  value is the double nearest to a multiple of 0.01 that is within 0.005 of the value.
\<close>

theorem angles_of_hotspot:
  assumes "result (analyze_panorama w fs image_path prompt_text output_json_path) = Inr buildings_data"
    and "h \<in> set buildings_data"
  shows "yaw h = py_round2 (float_sub (float_mul (float_div (x_norm h) 1000) 360) 180)
         \<and> pitch h = py_round2 (float_rsub 90 (float_mul (float_div (y_norm h) 1000) 180))
         \<and> yaw (building i lbl y (Fin 0)) = Fin (- 180)
         \<and> yaw (building i lbl y (Fin 1000)) = Fin 180
         \<and> pitch (building i lbl (Fin 0) x) = Fin 90
         \<and> pitch (building i lbl (Fin 1000) x) = Fin (- 90)
         \<and> yaw (building i lbl (Fin 500) (Fin 500)) = Fin 0
         \<and> pitch (building i lbl (Fin 500) (Fin 500)) = Fin 0
         \<and> yaw (building i lbl (Fin 2000) (Fin 2000)) = Fin 540
         \<and> pitch (building i lbl (Fin 2000) (Fin 2000)) = Fin (- 270)
         \<and> x_norm (building i lbl (Fin 2000) (Fin 2000)) = Fin 2000
         \<and> y_norm (building i lbl (Fin 2000) (Fin 2000)) = Fin 2000
         \<and> (\<forall>q. \<exists>k :: int. py_round2 (Fin q) = to_double (of_int k / 100)
                              \<and> \<bar>q - of_int k / 100\<bar> \<le> 1 / 200)"
proof -
  from analyze_result_labelled [OF assms(1)] obtain points where
    "buildings_data = labelled 0 (sort_key snd points)"
    by blast
  with assms(2) have "yaw h = py_round2 (yaw_of (x_norm h)) \<and> pitch h = py_round2 (pitch_of (y_norm h))"
    by (simp add: labelled_member)
  then have general: "yaw h = py_round2 (float_sub (float_mul (float_div (x_norm h) 1000) 360) 180)
         \<and> pitch h = py_round2 (float_rsub 90 (float_mul (float_div (y_norm h) 1000) 180))"
    by (simp add: yaw_of_def pitch_of_def)
  have fixed: "yaw (building i lbl y (Fin 0)) = Fin (- 180)
         \<and> yaw (building i lbl y (Fin 1000)) = Fin 180
         \<and> pitch (building i lbl (Fin 0) x) = Fin 90
         \<and> pitch (building i lbl (Fin 1000) x) = Fin (- 90)
         \<and> yaw (building i lbl (Fin 500) (Fin 500)) = Fin 0
         \<and> pitch (building i lbl (Fin 500) (Fin 500)) = Fin 0
         \<and> yaw (building i lbl (Fin 2000) (Fin 2000)) = Fin 540
         \<and> pitch (building i lbl (Fin 2000) (Fin 2000)) = Fin (- 270)
         \<and> x_norm (building i lbl (Fin 2000) (Fin 2000)) = Fin 2000
         \<and> y_norm (building i lbl (Fin 2000) (Fin 2000)) = Fin 2000"
    using boundary_yaw boundary_pitch by (simp add: building_def)
  have rounded: "\<forall>q. \<exists>k :: int. py_round2 (Fin q) = to_double (of_int k / 100)
                              \<and> \<bar>q - of_int k / 100\<bar> \<le> 1 / 200"
    using py_round2_two_decimals by blast
  from general fixed rounded show ?thesis
    by blast
qed

theorem angles_of_hotspot_witness:
  "result (analyze_panorama demo_world Map.empty ''pano.jpg'' ''prompt'' None) = Inr demo_buildings
   \<and> demo_buildings ! 2 \<in> set demo_buildings
   \<and> x_norm (demo_buildings ! 2) = Fin 500 \<and> y_norm (demo_buildings ! 2) = Fin 10
   \<and> yaw (demo_buildings ! 2) = py_round2 (float_sub (float_mul (float_div (Fin 500) 1000) 360) 180)
   \<and> pitch (demo_buildings ! 2) = py_round2 (float_rsub 90 (float_mul (float_div (Fin 10) 1000) 180))
   \<and> yaw (demo_buildings ! 2) = Fin 0
   \<and> pitch (demo_buildings ! 2) = Fin (6206523236469965 / 70368744177664)"
proof -
  have run: "result (analyze_panorama demo_world Map.empty ''pano.jpg'' ''prompt'' None)
               = Inr demo_buildings"
    by (rule demo_run)
  have mem: "demo_buildings ! 2 \<in> set demo_buildings"
    by (simp add: demo_buildings_def)
  have vals: "x_norm (demo_buildings ! 2) = Fin 500 \<and> y_norm (demo_buildings ! 2) = Fin 10
    \<and> yaw (demo_buildings ! 2) = Fin 0
    \<and> pitch (demo_buildings ! 2) = Fin (6206523236469965 / 70368744177664)"
    by (simp add: demo_buildings_def)
  from angles_of_hotspot [OF run mem] run mem vals show ?thesis
    by simp
qed

section \<open>Failures that end a run with an empty list\<close>

lemma load_image_fails:
  "(\<exists>e. load_image w image_path = Inl e) \<longleftrightarrow>
     (\<exists>e. pil_open w image_path = Inl e)
     \<or> (\<exists>img e. pil_open w image_path = Inr img \<and> pil_copy w img = Inl e)
     \<or> (\<exists>img ai_img e. pil_open w image_path = Inr img \<and> pil_copy w img = Inr ai_img
                          \<and> pil_thumbnail w ai_img (2048, 2048) = Inl e)"
  by (auto simp: load_image_def split: sum.splits)

text \<open>
  C7. When opening the image, copying it or downscaling the copy raises, the run returns
  the empty list: no exception leaves \<open>analyze_panorama\<close>, no model is called and no file
  is written.
\<close>

theorem image_failure_returns_empty:
  assumes "(\<exists>e. pil_open w image_path = Inl e)
     \<or> (\<exists>img e. pil_open w image_path = Inr img \<and> pil_copy w img = Inl e)
     \<or> (\<exists>img ai_img e. pil_open w image_path = Inr img \<and> pil_copy w img = Inr ai_img
                          \<and> pil_thumbnail w ai_img (2048, 2048) = Inl e)"
  shows "result (analyze_panorama w fs image_path prompt_text output_json_path) = Inr []
         \<and> calls (analyze_panorama w fs image_path prompt_text output_json_path) = []
         \<and> files (analyze_panorama w fs image_path prompt_text output_json_path) = fs"
proof -
  from assms obtain e where "load_image w image_path = Inl e"
    using load_image_fails [of w image_path] by blast
  then show ?thesis
    by (simp add: analyze_panorama_def)
qed

theorem image_failure_returns_empty_witness:
  "pil_open broken_world ''pano.jpg'' = Inr 4096
   \<and> pil_copy broken_world 4096 = Inl (Raised ''image file is truncated'')
   \<and> result (analyze_panorama broken_world Map.empty ''pano.jpg'' ''prompt'' (Some ''out.json'')) = Inr []
   \<and> calls (analyze_panorama broken_world Map.empty ''pano.jpg'' ''prompt'' (Some ''out.json'')) = []
   \<and> files (analyze_panorama broken_world Map.empty ''pano.jpg'' ''prompt'' (Some ''out.json'')) = Map.empty"
proof -
  have o: "pil_open broken_world ''pano.jpg'' = Inr 4096"
    by (simp add: broken_world_def demo_world_def)
  have c: "pil_copy broken_world 4096 = Inl (Raised ''image file is truncated'')"
    by (simp add: broken_world_def)
  from o c have "(\<exists>e. pil_open broken_world ''pano.jpg'' = Inl e)
     \<or> (\<exists>img e. pil_open broken_world ''pano.jpg'' = Inr img \<and> pil_copy broken_world img = Inl e)
     \<or> (\<exists>img ai_img e. pil_open broken_world ''pano.jpg'' = Inr img
            \<and> pil_copy broken_world img = Inr ai_img
            \<and> pil_thumbnail broken_world ai_img (2048, 2048) = Inl e)"
    by blast
  from image_failure_returns_empty [OF this] o c show ?thesis
    by blast
qed

section \<open>The scanner and the coordinate form\<close>

lemma spaces_not_digits: "list_all (\<lambda>c. \<not> is_digit c) space_points"
  by code_simp

lemma digit_not_space: "is_digit c \<Longrightarrow> \<not> is_space c"
  using spaces_not_digits by (auto simp: is_space_def list_all_iff)

lemma marks_not_digit:
  "\<not> is_digit (of_char CHR ''.'')" "\<not> is_digit (of_char CHR '','')" "\<not> is_digit (of_char CHR '']'')" "\<not> is_digit (of_char CHR ''['')"
  by (simp_all add: is_digit_def digit_zeros_def)

lemma marks_not_space:
  "\<not> is_space (of_char CHR ''.'')" "\<not> is_space (of_char CHR '','')" "\<not> is_space (of_char CHR '']'')" "\<not> is_space (of_char CHR ''['')"
  by (simp_all add: is_space_def space_points_def)

lemma digits_takeWhile: "digits ip \<Longrightarrow> \<not> is_digit c \<Longrightarrow> takeWhile is_digit (ip @ c # t) = ip"
  by (simp add: digits_def list_all_iff takeWhile_tail)

lemma digits_dropWhile: "digits ip \<Longrightarrow> \<not> is_digit c \<Longrightarrow> dropWhile is_digit (ip @ c # t) = c # t"
  by (simp add: digits_def list_all_iff dropWhile_append)

lemma digits_nonempty: "digits ip \<Longrightarrow> ip \<noteq> []"
  by (simp add: digits_def)

lemma take_number_literal:
  assumes "numeric_literal y" and "\<not> is_digit c" and "c \<noteq> of_char CHR ''.''"
  shows "take_number (y @ c # t) = Some (y, c # t)"
proof -
  from assms(1) consider (whole) "digits y"
    | (frac) ip fp where "digits ip" "digits fp" "y = ip @ ascii ''.'' @ fp"
    by (auto simp: numeric_literal_def)
  then show ?thesis
  proof cases
    case whole
    then show ?thesis
      using assms(2,3)
      by (simp add: take_number_def digits_takeWhile digits_dropWhile digits_nonempty)
  next
    case frac
    have a: "takeWhile is_digit (y @ c # t) = ip"
      using digits_takeWhile [OF frac(1) marks_not_digit(1), of "fp @ c # t"]
      by (simp add: frac(3))
    have b: "dropWhile is_digit (y @ c # t) = of_char CHR ''.'' # (fp @ c # t)"
      using digits_dropWhile [OF frac(1) marks_not_digit(1), of "fp @ c # t"]
      by (simp add: frac(3))
    show ?thesis
      unfolding take_number_def a b Let_def
      using frac assms(2)
      by (simp add: digits_takeWhile digits_dropWhile digits_nonempty)
  qed
qed

lemma skip_blanks: "blanks a \<Longrightarrow> \<not> is_space c \<Longrightarrow> skip_spaces (a @ c # t) = c # t"
  by (simp add: blanks_def skip_spaces_def list_all_iff dropWhile_append)

lemma literal_starts_with_digit:
  assumes "numeric_literal y"
  shows "\<exists>c t. y = c # t \<and> is_digit c"
proof -
  from assms obtain ip t where "digits ip" "y = ip @ t"
    by (auto simp: numeric_literal_def)
  then show ?thesis
    by (cases ip) (auto simp: digits_def)
qed

lemma skip_blanks_literal:
  assumes "blanks a" and "numeric_literal y"
  shows "skip_spaces (a @ y @ t) = y @ t"
proof -
  from literal_starts_with_digit [OF assms(2)] obtain c y' where
    "y = c # y'" "is_digit c" by blast
  then show ?thesis
    using skip_blanks [OF assms(1), of c "y' @ t"] by (simp add: digit_not_space)
qed

lemma take_number_then_blanks:
  assumes "numeric_literal y" and "blanks b" and "\<not> is_digit c" and "c \<noteq> of_char CHR ''.''"
    and "\<not> is_space c"
  shows "\<exists>s2. take_number (y @ b @ c # t) = Some (y, s2) \<and> skip_spaces s2 = c # t"
proof (cases b)
  case Nil
  then show ?thesis
    using take_number_literal [OF assms(1,3,4), of t] by (simp add: skip_spaces_def assms(5))
next
  case (Cons e b')
  with assms(2) have e: "is_space e" by (simp add: blanks_def)
  then have "\<not> is_digit e" using digit_not_space by blast
  moreover from e have "e \<noteq> of_char CHR ''.''" using marks_not_space(1) by blast
  ultimately have "take_number (y @ e # (b' @ c # t)) = Some (y, e # (b' @ c # t))"
    using assms(1) by (rule_tac take_number_literal)
  moreover have "skip_spaces (e # (b' @ c # t)) = c # t"
    using skip_blanks [OF assms(2) assms(5), of t] Cons by simp
  ultimately show ?thesis using Cons by simp
qed

lemma match_here_complete:
  assumes "coordinate_form s y x"
  shows "match_here (s @ r) = Some ((y, x), r)"
proof -
  from assms obtain a b c d where
    ny: "numeric_literal y" and nx: "numeric_literal x" and
    bl: "blanks a" "blanks b" "blanks c" "blanks d" and
    s: "s = ascii ''['' @ a @ y @ b @ ascii '','' @ c @ x @ d @ ascii '']''"
    by (auto simp: coordinate_form_def)
  have comma: "(of_char CHR '','' :: int) \<noteq> of_char CHR ''.''"
    and bracket: "(of_char CHR '']'' :: int) \<noteq> of_char CHR ''.''"
    by simp_all
  have s1: "skip_spaces (a @ y @ b @ ascii '','' @ c @ x @ d @ ascii '']'' @ r)
              = y @ b @ ascii '','' @ c @ x @ d @ ascii '']'' @ r"
    by (rule skip_blanks_literal [OF bl(1) ny])
  obtain s2 where
    n1: "take_number (y @ b @ of_char CHR '','' # (c @ x @ d @ ascii '']'' @ r)) = Some (y, s2)" and
    k1: "skip_spaces s2 = of_char CHR '','' # (c @ x @ d @ ascii '']'' @ r)"
    using take_number_then_blanks [OF ny bl(2) marks_not_digit(2) comma marks_not_space(2),
        of "c @ x @ d @ ascii '']'' @ r"]
    by blast
  have s3: "skip_spaces (c @ x @ d @ ascii '']'' @ r) = x @ d @ ascii '']'' @ r"
    by (rule skip_blanks_literal [OF bl(3) nx])
  obtain s4 where
    n2: "take_number (x @ d @ of_char CHR '']'' # r) = Some (x, s4)" and
    k2: "skip_spaces s4 = of_char CHR '']'' # r"
    using take_number_then_blanks [OF nx bl(4) marks_not_digit(3) bracket marks_not_space(3),
        of r]
    by blast
  show ?thesis
    using s1 n1 k1 s3 n2 k2 by (simp add: s match_here_def)
qed

lemma take_number_sound:
  assumes "take_number s = Some (n, r)"
  shows "numeric_literal n"
proof -
  have dg: "digits (takeWhile is_digit t)" if "takeWhile is_digit t \<noteq> []" for t
    using that by (auto simp: digits_def list_all_iff dest: set_takeWhileD)
  from assms have ip: "takeWhile is_digit s \<noteq> []"
    by (auto simp: take_number_def Let_def split: if_splits)
  show ?thesis
  proof (cases "dropWhile is_digit s")
    case Nil
    with assms ip have "n = takeWhile is_digit s"
      by (simp add: take_number_def Let_def)
    with dg [OF ip] show ?thesis by (simp add: numeric_literal_def)
  next
    case (Cons c r')
    show ?thesis
    proof (cases "c = of_char CHR ''.'' \<and> takeWhile is_digit r' \<noteq> []")
      case True
      with assms Cons ip have "n = takeWhile is_digit s @ ascii ''.'' @ takeWhile is_digit r'"
        by (simp add: take_number_def Let_def)
      with dg [OF ip] dg [of r'] True show ?thesis
        unfolding numeric_literal_def by blast
    next
      case False
      with assms Cons ip have "n = takeWhile is_digit s"
        by (auto simp add: take_number_def Let_def)
      with dg [OF ip] show ?thesis by (simp add: numeric_literal_def)
    qed
  qed
qed

lemma skip_spaces_split: "\<exists>a. blanks a \<and> s = a @ skip_spaces s"
proof -
  have "blanks (takeWhile is_space s)"
    by (auto simp: blanks_def list_all_iff dest: set_takeWhileD)
  moreover have "s = takeWhile is_space s @ skip_spaces s"
    by (simp add: skip_spaces_def)
  ultimately show ?thesis by blast
qed

lemma match_here_sound:
  assumes "match_here s = Some ((y, x), r)"
  shows "\<exists>w. s = w @ r \<and> coordinate_form w y x"
proof -
  from assms obtain s1 s2 s3 s4 where
    s: "s = of_char CHR ''['' # s1" and
    n1: "take_number (skip_spaces s1) = Some (y, s2)" and
    c1: "skip_spaces s2 = of_char CHR '','' # s3" and
    n2: "take_number (skip_spaces s3) = Some (x, s4)" and
    c2: "skip_spaces s4 = of_char CHR '']'' # r"
    by (auto simp: match_here_def split: list.splits if_splits option.splits)
  obtain a where a: "blanks a" "s1 = a @ skip_spaces s1" using skip_spaces_split by blast
  obtain b where b: "blanks b" "s2 = b @ skip_spaces s2" using skip_spaces_split by blast
  obtain c where c: "blanks c" "s3 = c @ skip_spaces s3" using skip_spaces_split by blast
  obtain d where d: "blanks d" "s4 = d @ skip_spaces s4" using skip_spaces_split by blast
  have e1: "skip_spaces s1 = y @ s2" using n1 by (rule take_number_append)
  have e2: "skip_spaces s3 = x @ s4" using n2 by (rule take_number_append)
  have "s4 = d @ of_char CHR '']'' # r" using d(2) c2 by simp
  then have "s3 = c @ x @ d @ of_char CHR '']'' # r" using c(2) e2 by simp
  then have "s2 = b @ of_char CHR '','' # c @ x @ d @ of_char CHR '']'' # r" using b(2) c1 by simp
  then have "s1 = a @ y @ b @ of_char CHR '','' # c @ x @ d @ of_char CHR '']'' # r" using a(2) e1 by simp
  then have "s = (ascii ''['' @ a @ y @ b @ ascii '','' @ c @ x @ d @ ascii '']'') @ r"
    using s by simp
  moreover have "coordinate_form (ascii ''['' @ a @ y @ b @ ascii '','' @ c @ x @ d @ ascii '']'') y x"
    unfolding coordinate_form_def
    using take_number_sound [OF n1] take_number_sound [OF n2] a(1) b(1) c(1) d(1) by blast
  ultimately show ?thesis by blast
qed

text \<open>
  The scanner accepts exactly the strings of the pattern, and a match determines its
  groups: at a given start there is at most one string of the coordinate form, so no
  other order of trying the alternatives could find a different match.
\<close>

lemma match_here_iff:
  "match_here t = Some ((y, x), r) \<longleftrightarrow> (\<exists>s. t = s @ r \<and> coordinate_form s y x)"
  using match_here_sound match_here_complete by blast

lemma literal_no_bracket: "numeric_literal y \<Longrightarrow> of_char CHR ''['' \<notin> set y"
  using marks_not_digit(4) by (auto simp: numeric_literal_def digits_def list_all_iff)

lemma blanks_no_bracket: "blanks a \<Longrightarrow> of_char CHR ''['' \<notin> set a"
  using marks_not_space(4) by (auto simp: blanks_def list_all_iff)

lemma coordinate_form_bracket:
  assumes "coordinate_form w y x"
  shows "\<exists>w'. w = of_char CHR ''['' # w' \<and> of_char CHR ''['' \<notin> set w'"
proof -
  from assms obtain a b c d where
    "numeric_literal y" "numeric_literal x" "blanks a" "blanks b" "blanks c" "blanks d"
    "w = ascii ''['' @ a @ y @ b @ ascii '','' @ c @ x @ d @ ascii '']''"
    by (auto simp: coordinate_form_def)
  then show ?thesis
    using literal_no_bracket blanks_no_bracket by auto
qed

lemma no_coordinate_tail: "no_coordinate (c # g) \<Longrightarrow> no_coordinate g"
  unfolding no_coordinate_def by (metis append_Cons)

lemma no_match_in_gap:
  assumes "no_coordinate (c # g)" and "t = [] \<or> hd t = of_char CHR ''[''"
  shows "match_here (c # g @ t) = None"
proof (rule ccontr)
  assume "match_here (c # g @ t) \<noteq> None"
  then obtain y x r where "match_here (c # g @ t) = Some ((y, x), r)" by auto
  from match_here_sound [OF this] obtain w where
    w: "c # g @ t = w @ r" "coordinate_form w y x" by blast
  from coordinate_form_bracket [OF w(2)] obtain w' where
    w': "w = of_char CHR ''['' # w'" "of_char CHR ''['' \<notin> set w'" by blast
  from w(1) w'(1) have eq: "g @ t = w' @ r" by simp
  show False
  proof (cases "length w' \<le> length g")
    case True
    with eq obtain v where "g = w' @ v"
      by (metis append_eq_append_conv_if append_take_drop_id)
    with w(1) w'(1) have "c # g = [] @ w @ v" by simp
    with assms(1) w(2) show False unfolding no_coordinate_def by blast
  next
    case False
    then have lt: "length g < length w'" by simp
    with eq have "t \<noteq> []" by (metis append_eq_append_conv_if length_take min.absorb2 less_imp_le_nat
          append_Nil2 leD length_append le_add1 take_all_iff)
    with assms(2) have "hd t = of_char CHR ''[''" by simp
    moreover have "w' ! length g = (g @ t) ! length g"
      using eq lt by (simp add: nth_append)
    moreover have "(g @ t) ! length g = hd t"
      using \<open>t \<noteq> []\<close> by (simp add: nth_append hd_conv_nth)
    ultimately have "of_char CHR ''['' \<in> set w'"
      using lt by (metis nth_mem)
    with w'(2) show False by simp
  qed
qed

lemma findall_gap_then_form:
  assumes "no_coordinate g" and "coordinate_form s y x"
  shows "findall (g @ s @ rest) = (y, x) # findall rest"
  using assms(1)
proof (induction g)
  case Nil
  from coordinate_form_bracket [OF assms(2)] obtain s' where "s = of_char CHR ''['' # s'" by blast
  then show ?case
    using match_here_complete [OF assms(2), of rest] by (simp add: findall.simps(2))
next
  case (Cons c g)
  from coordinate_form_bracket [OF assms(2)] have "hd (s @ rest) = of_char CHR ''[''" by auto
  with no_match_in_gap [OF Cons.prems, of "s @ rest"]
  have "match_here (c # g @ s @ rest) = None" by simp
  then show ?case
    using Cons.IH [OF no_coordinate_tail [OF Cons.prems]] by (simp add: findall.simps(2))
qed

lemma findall_gap: "no_coordinate g \<Longrightarrow> findall g = []"
proof (induction g)
  case Nil
  show ?case by simp
next
  case (Cons c g)
  from no_match_in_gap [OF Cons.prems, of "[]"] have "match_here (c # g) = None" by simp
  then show ?case
    using Cons.IH [OF no_coordinate_tail [OF Cons.prems]] by (simp add: findall.simps(2))
qed

lemma findall_finds:
  assumes "coordinate_form s y x"
  shows "findall (u @ s @ v) \<noteq> []"
proof (induction u)
  case Nil
  from coordinate_form_bracket [OF assms] obtain s' where "s = of_char CHR ''['' # s'" by blast
  then show ?case
    using match_here_complete [OF assms, of v] by (simp add: findall.simps(2))
next
  case (Cons c u)
  then show ?case
    by (cases "match_here (c # u @ s @ v)") (auto simp: findall.simps(2))
qed

lemma no_coordinate_iff: "no_coordinate g \<longleftrightarrow> findall g = []"
  using findall_gap findall_finds unfolding no_coordinate_def by blast

section \<open>The parser\<close>

lemma numeric_literal_iff: "numeric_literal s \<longleftrightarrow> is_literal s"
proof
  assume "numeric_literal s"
  then consider (whole) "digits s"
    | (frac) ip fp where "digits ip" "digits fp" "s = ip @ ascii ''.'' @ fp"
    by (auto simp: numeric_literal_def)
  then show "is_literal s"
  proof cases
    case whole
    then have t: "takeWhile is_digit s = s" and d: "dropWhile is_digit s = []"
      and n: "s \<noteq> []"
      by (simp_all add: digits_def list_all_iff)
    show ?thesis
      unfolding is_literal_def Let_def t d using n by simp
  next
    case frac
    have t: "takeWhile is_digit s = ip" and d: "dropWhile is_digit s = of_char CHR ''.'' # fp"
      using digits_takeWhile [OF frac(1) marks_not_digit(1), of fp]
        digits_dropWhile [OF frac(1) marks_not_digit(1), of fp]
      by (simp_all add: frac(3))
    show ?thesis
      unfolding is_literal_def Let_def t d using frac(1,2) by (simp add: digits_def)
  qed
next
  assume lit: "is_literal s"
  have whole: "s = takeWhile is_digit s @ dropWhile is_digit s" by simp
  have ip: "digits (takeWhile is_digit s)"
    using lit by (auto simp: is_literal_def digits_def Let_def list_all_iff dest: set_takeWhileD)
  show "numeric_literal s"
  proof (cases "dropWhile is_digit s")
    case Nil
    with whole ip show ?thesis by (simp add: numeric_literal_def)
  next
    case (Cons c fp)
    with lit have "c = of_char CHR ''.''" "digits fp"
      by (simp_all add: is_literal_def digits_def Let_def)
    with whole ip Cons have "digits (takeWhile is_digit s) \<and> digits fp
        \<and> s = takeWhile is_digit s @ ascii ''.'' @ fp"
      by simp
    then show ?thesis unfolding numeric_literal_def by blast
  qed
qed

lemma findall_groups:
  "(y, x) \<in> set (findall t) \<Longrightarrow> numeric_literal y \<and> numeric_literal x"
proof (induction t rule: findall.induct)
  case 1
  then show ?case by simp
next
  case (2 c cs)
  show ?case
  proof (cases "match_here (c # cs)")
    case None
    with 2 show ?thesis by (simp add: findall.simps(2))
  next
    case (Some m)
    obtain y' x' r where m: "m = ((y', x'), r)" by (metis prod.exhaust)
    from match_here_sound [OF Some [unfolded m]] have "numeric_literal y' \<and> numeric_literal x'"
      by (auto simp: coordinate_form_def)
    with 2 Some m show ?thesis
      by (auto simp: findall.simps(2))
  qed
qed

lemma parse_points_literals:
  "\<forall>(y, x)\<in>set ms. numeric_literal y \<and> numeric_literal x \<Longrightarrow>
     parse_points ms = map (\<lambda>(y, x). (to_double (literal_value y), to_double (literal_value x))) ms"
  by (induction ms) (auto simp: py_float_def numeric_literal_iff)

lemma parse_points_findall:
  "parse_points (findall t)
     = map (\<lambda>(y, x). (to_double (literal_value y), to_double (literal_value x))) (findall t)"
  using findall_groups by (intro parse_points_literals) blast

lemma nat_of_digits_positional: "nat_of_digits ds = positional (map digit_value ds)"
  by (simp add: nat_of_digits_def foldl_positional)

lemma digits_no_dot: "digits ip \<Longrightarrow> of_char CHR ''.'' \<notin> set ip"
  using marks_not_digit(1) by (auto simp: digits_def list_all_iff)

lemma literal_value_number:
  assumes "numeric_literal s"
  shows "literal_value s = number_of s"
proof -
  from assms consider (whole) "digits s"
    | (frac) ip fp where "digits ip" "digits fp" "s = ip @ ascii ''.'' @ fp"
    by (auto simp: numeric_literal_def)
  then show ?thesis
  proof cases
    case whole
    then have t: "takeWhile is_digit s = s"
      by (simp add: digits_def list_all_iff)
    from digits_no_dot [OF whole] have u: "takeWhile (\<lambda>c. c \<noteq> of_char CHR ''.'') s = s"
      and v: "dropWhile (\<lambda>c. c \<noteq> of_char CHR ''.'') s = []"
      by (auto simp: takeWhile_eq_all_conv)
    show ?thesis
      unfolding literal_value_def number_of_def Let_def t u v decimal_number_def
      by (simp add: nat_of_digits_positional)
  next
    case frac
    have t: "takeWhile is_digit s = ip"
      using digits_takeWhile [OF frac(1) marks_not_digit(1), of fp] by (simp add: frac(3))
    have u: "takeWhile (\<lambda>c. c \<noteq> of_char CHR ''.'') s = ip"
      using digits_no_dot [OF frac(1)] by (simp add: frac(3) takeWhile_append)
    have v: "dropWhile (\<lambda>c. c \<noteq> of_char CHR ''.'') s = of_char CHR ''.'' # fp"
      using digits_no_dot [OF frac(1)] by (simp add: frac(3) dropWhile_append)
    have w: "drop (Suc (length ip)) s = fp"
      by (simp add: frac(3))
    show ?thesis
      unfolding literal_value_def number_of_def Let_def t u v w decimal_number_def
      by (simp add: nat_of_digits_positional)
  qed
qed

lemma parse_points_numbers:
  "parse_points (findall t)
     = map (\<lambda>(y, x). (to_double (number_of y), to_double (number_of x))) (findall t)"
proof -
  have "map (\<lambda>(y, x). (to_double (literal_value y), to_double (literal_value x))) ms
      = map (\<lambda>(y, x). (to_double (number_of y), to_double (number_of x))) ms"
    if "\<forall>(y, x)\<in>set ms. numeric_literal y \<and> numeric_literal x" for ms
    using that by (induction ms) (auto simp: literal_value_number)
  moreover have "\<forall>(y, x)\<in>set (findall t). numeric_literal y \<and> numeric_literal x"
    using findall_groups by blast
  ultimately show ?thesis
    by (simp add: parse_points_findall)
qed

lemma findall_layout:
  assumes "no_coordinate g0"
    and "\<forall>(s, y, x, g)\<in>set items. coordinate_form s y x \<and> no_coordinate g"
  shows "findall (layout g0 items) = map (\<lambda>(s, y, x, g). (y, x)) items"
  using assms
proof (induction items arbitrary: g0)
  case Nil
  then show ?case by (simp add: findall_gap)
next
  case (Cons item items)
  obtain s y x g where item: "item = (s, y, x, g)" by (metis prod.exhaust)
  from Cons.prems(2) item have f: "coordinate_form s y x" and g: "no_coordinate g"
    and rest: "\<forall>(s, y, x, g)\<in>set items. coordinate_form s y x \<and> no_coordinate g"
    by auto
  show ?case
    using findall_gap_then_form [OF Cons.prems(1) f, of "layout g items"] Cons.IH [OF g rest]
    by (simp add: item)
qed

lemma coordinate_formI:
  "numeric_literal y \<Longrightarrow> numeric_literal x \<Longrightarrow> blanks a \<Longrightarrow> blanks b \<Longrightarrow> blanks c \<Longrightarrow> blanks d \<Longrightarrow>
     coordinate_form (ascii ''['' @ a @ y @ b @ ascii '','' @ c @ x @ d @ ascii '']'') y x"
  unfolding coordinate_form_def by blast

text \<open>Every text is cut at its coordinate forms in this way.\<close>

lemma no_coordinate_Cons:
  assumes "no_coordinate g" and "match_here (c # g @ t) = None"
  shows "no_coordinate (c # g)"
proof (rule ccontr)
  assume "\<not> no_coordinate (c # g)"
  then obtain u s v y x where d: "c # g = u @ s @ v" "coordinate_form s y x"
    unfolding no_coordinate_def by blast
  show False
  proof (cases u)
    case Nil
    with d(1) have "c # g @ t = s @ (v @ t)" by simp
    with match_here_complete [OF d(2), of "v @ t"] assms(2) show False by simp
  next
    case (Cons e u')
    with d(1) have "g = u' @ s @ v" by simp
    with assms(1) d(2) show False unfolding no_coordinate_def by blast
  qed
qed

lemma text_has_layout:
  "\<exists>g0 items. t = layout g0 items \<and> no_coordinate g0
      \<and> (\<forall>(s, y, x, g)\<in>set items. coordinate_form s y x \<and> no_coordinate g)"
proof (induction t rule: findall.induct)
  case 1
  have "[] = layout [] [] \<and> no_coordinate []
      \<and> (\<forall>(s, y, x, g)\<in>set []. coordinate_form s y x \<and> no_coordinate g)"
    by (simp add: no_coordinate_iff)
  then show ?case by blast
next
  case (2 c cs)
  show ?case
  proof (cases "match_here (c # cs)")
    case None
    from 2(1) [OF None] obtain g0 items where
      l: "cs = layout g0 items" "no_coordinate g0"
         "\<forall>(s, y, x, g)\<in>set items. coordinate_form s y x \<and> no_coordinate g"
      by blast
    obtain t where t: "cs = g0 @ t"
      using l(1) by (cases items) auto
    from None t have "match_here (c # g0 @ t) = None" by simp
    from no_coordinate_Cons [OF l(2) this] have "no_coordinate (c # g0)" .
    moreover have "c # cs = layout (c # g0) items"
      using l(1) by (cases items) auto
    ultimately show ?thesis using l(3) by blast
  next
    case (Some m)
    obtain y x r where m: "m = ((y, x), r)" by (metis prod.exhaust)
    from match_here_sound [OF Some [unfolded m]] obtain w where
      w: "c # cs = w @ r" "coordinate_form w y x" by blast
    from 2(2) [OF Some [unfolded m] refl] obtain g items where
      l: "r = layout g items" "no_coordinate g"
         "\<forall>(s, y, x, g)\<in>set items. coordinate_form s y x \<and> no_coordinate g"
      by blast
    have "c # cs = layout [] ((w, y, x, g) # items)"
      using w(1) l(1) by simp
    moreover have "no_coordinate []" by (simp add: no_coordinate_iff)
    moreover have "\<forall>(s, y, x, g)\<in>set ((w, y, x, g) # items). coordinate_form s y x \<and> no_coordinate g"
      using w(2) l(2,3) by simp
    ultimately show ?thesis by blast
  qed
qed

text \<open>
  C3. Every response text is a sequence of \<open>k\<close> substrings of the coordinate form with,
  before, between and after them, text that has no substring of that form. For such a
  text the parser finds exactly the \<open>k\<close> forms, in the order of the text, and drops none:
  the \<open>k\<close> parsed pairs are, for each form, the doubles nearest to the numbers that its
  two literals denote, \<open>y\<close> first. With \<open>k = 0\<close> the run returns the empty list, raises
  nothing and writes nothing. A digit is a decimal digit of any script, and a blank any
  whitespace character, as the pattern of line 73 takes them.
\<close>

theorem parser_returns_coordinate_pairs:
  assumes "no_coordinate g0"
    and "\<forall>(s, y, x, g)\<in>set items. coordinate_form s y x \<and> no_coordinate g"
  shows "findall (layout g0 items) = map (\<lambda>(s, y, x, g). (y, x)) items
         \<and> parse_points (findall (layout g0 items))
             = map (\<lambda>(s, y, x, g). (to_double (number_of y), to_double (number_of x))) items
         \<and> length (parse_points (findall (layout g0 items))) = length items
         \<and> (items = [] \<longrightarrow>
               detect_in_text w fs output_json_path (layout g0 items) = (Inr [], fs))
         \<and> (\<exists>g0' items'. text_response = layout g0' items' \<and> no_coordinate g0'
               \<and> (\<forall>(s, y, x, g)\<in>set items'. coordinate_form s y x \<and> no_coordinate g))"
proof -
  have f: "findall (layout g0 items) = map (\<lambda>(s, y, x, g). (y, x)) items"
    using assms by (rule findall_layout)
  have p: "parse_points (findall (layout g0 items))
             = map (\<lambda>(s, y, x, g). (to_double (number_of y), to_double (number_of x))) items"
    by (subst parse_points_numbers) (simp add: f case_prod_beta)
  have e: "items = [] \<longrightarrow> detect_in_text w fs output_json_path (layout g0 items) = (Inr [], fs)"
    using f by (auto simp: detect_in_text_def Let_def)
  have l: "\<exists>g0' items'. text_response = layout g0' items' \<and> no_coordinate g0'
               \<and> (\<forall>(s, y, x, g)\<in>set items'. coordinate_form s y x \<and> no_coordinate g)"
    by (rule text_has_layout)
  from f p e l show ?thesis by simp
qed

lemma demo_layout: "demo_text = layout (ascii ''[{point: '') demo_items"
  by (simp add: demo_text_def demo_items_def)

lemma demo_gaps:
  "no_coordinate (ascii ''[{point: '')" "no_coordinate (ascii ''}, {point: '')"
  "no_coordinate (ascii ''}]'')" "no_coordinate []"
  unfolding no_coordinate_iff by code_simp+

lemma demo_literals:
  "numeric_literal (ascii ''237.5'')" "numeric_literal (ascii ''500'')" "numeric_literal (ascii ''0'')"
  "numeric_literal (ascii ''0.1'')" "numeric_literal (ascii ''10'')"
  "numeric_literal [1633, 1634]" "numeric_literal [1635, 1636, 46, 1637]"
  unfolding numeric_literal_iff by code_simp+

lemma demo_blanks: "blanks (ascii '' '')" "blanks []" "blanks [12288]"
  by (simp_all add: blanks_def is_space_def space_points_def)

lemma demo_forms:
  "coordinate_form (ascii ''[237.5, 500]'') (ascii ''237.5'') (ascii ''500'')"
  "coordinate_form (ascii ''[ 0 ,0.1 ]'') (ascii ''0'') (ascii ''0.1'')"
  "coordinate_form (ascii ''[10,500]'') (ascii ''10'') (ascii ''500'')"
  "coordinate_form script_text [1633, 1634] [1635, 1636, 46, 1637]"
proof -
  note sp = demo_blanks
  show "coordinate_form (ascii ''[237.5, 500]'') (ascii ''237.5'') (ascii ''500'')"
    using coordinate_formI [OF demo_literals(1) demo_literals(2) sp(2) sp(2) sp(1) sp(2)]
    by simp
  show "coordinate_form (ascii ''[ 0 ,0.1 ]'') (ascii ''0'') (ascii ''0.1'')"
    using coordinate_formI [OF demo_literals(3) demo_literals(4) sp(1) sp(1) sp(2) sp(1)]
    by simp
  show "coordinate_form (ascii ''[10,500]'') (ascii ''10'') (ascii ''500'')"
    using coordinate_formI [OF demo_literals(5) demo_literals(2) sp(2) sp(2) sp(2) sp(2)]
    by simp
  show "coordinate_form script_text [1633, 1634] [1635, 1636, 46, 1637]"
    using coordinate_formI [OF demo_literals(6) demo_literals(7) sp(2) sp(2) sp(3) sp(2)]
    by (simp add: script_text_def)
qed

lemma demo_numbers:
  "map (\<lambda>(s, y, x, g). (to_double (number_of y), to_double (number_of x))) demo_items
     = [(Fin (475 / 2), Fin 500), (Fin 0, Fin (3602879701896397 / 36028797018963968)),
        (Fin 10, Fin 500)]"
  "map (\<lambda>(s, y, x, g). (to_double (number_of y), to_double (number_of x))) script_items
     = [(Fin 12, Fin (69 / 2))]"
  "number_of (ascii ''237.5'') = 475 / 2" "number_of (ascii ''0.1'') = 1 / 10"
  "number_of [1635, 1636, 46, 1637] = 69 / 2"
  by code_simp+

theorem parser_returns_coordinate_pairs_witness:
  "no_coordinate (ascii ''[{point: '')
   \<and> coordinate_form (ascii ''[237.5, 500]'') (ascii ''237.5'') (ascii ''500'')
   \<and> no_coordinate (ascii ''}, {point: '')
   \<and> coordinate_form (ascii ''[ 0 ,0.1 ]'') (ascii ''0'') (ascii ''0.1'')
   \<and> coordinate_form (ascii ''[10,500]'') (ascii ''10'') (ascii ''500'')
   \<and> no_coordinate (ascii ''}]'')
   \<and> layout (ascii ''[{point: '') demo_items
       = ascii ''[{point: [237.5, 500]}, {point: [ 0 ,0.1 ]}, {point: [10,500]}]''
   \<and> findall (layout (ascii ''[{point: '') demo_items)
       = [(ascii ''237.5'', ascii ''500''), (ascii ''0'', ascii ''0.1''), (ascii ''10'', ascii ''500'')]
   \<and> parse_points (findall (layout (ascii ''[{point: '') demo_items))
       = [(Fin (475 / 2), Fin 500), (Fin 0, Fin (3602879701896397 / 36028797018963968)),
          (Fin 10, Fin 500)]
   \<and> number_of (ascii ''237.5'') = 475 / 2 \<and> number_of (ascii ''0.1'') = 1 / 10
   \<and> no_coordinate []
   \<and> coordinate_form script_text [1633, 1634] [1635, 1636, 46, 1637]
   \<and> layout [] script_items = [91, 1633, 1634, 44, 12288, 1635, 1636, 46, 1637, 93]
   \<and> findall (layout [] script_items) = [([1633, 1634], [1635, 1636, 46, 1637])]
   \<and> parse_points (findall (layout [] script_items)) = [(Fin 12, Fin (69 / 2))]
   \<and> number_of [1635, 1636, 46, 1637] = 69 / 2"
proof -
  have items: "\<forall>(s, y, x, g)\<in>set demo_items. coordinate_form s y x \<and> no_coordinate g"
    using demo_forms demo_gaps by (simp add: demo_items_def del: ascii_Cons)
  have l: "layout (ascii ''[{point: '') demo_items
             = ascii ''[{point: [237.5, 500]}, {point: [ 0 ,0.1 ]}, {point: [10,500]}]''"
    by (simp add: demo_items_def)
  note inst = parser_returns_coordinate_pairs [OF demo_gaps(1) items]
  from inst
  have "findall (layout (ascii ''[{point: '') demo_items) = map (\<lambda>(s, y, x, g). (y, x)) demo_items"
    by blast
  then have f: "findall (layout (ascii ''[{point: '') demo_items)
       = [(ascii ''237.5'', ascii ''500''), (ascii ''0'', ascii ''0.1''), (ascii ''10'', ascii ''500'')]"
    by (simp add: demo_items_def)
  from inst
  have "parse_points (findall (layout (ascii ''[{point: '') demo_items))
      = map (\<lambda>(s, y, x, g). (to_double (number_of y), to_double (number_of x))) demo_items"
    by blast
  then have v: "parse_points (findall (layout (ascii ''[{point: '') demo_items))
       = [(Fin (475 / 2), Fin 500), (Fin 0, Fin (3602879701896397 / 36028797018963968)),
          (Fin 10, Fin 500)]"
    by (simp only: demo_numbers(1))
  have items2: "\<forall>(s, y, x, g)\<in>set script_items. coordinate_form s y x \<and> no_coordinate g"
    using demo_forms(4) demo_gaps(4) by (simp add: script_items_def)
  have l2: "layout [] script_items = [91, 1633, 1634, 44, 12288, 1635, 1636, 46, 1637, 93]"
    by (simp add: script_items_def script_text_def)
  note inst2 = parser_returns_coordinate_pairs [OF demo_gaps(4) items2]
  from inst2
  have "findall (layout [] script_items) = map (\<lambda>(s, y, x, g). (y, x)) script_items"
    by blast
  then have f2: "findall (layout [] script_items) = [([1633, 1634], [1635, 1636, 46, 1637])]"
    by (simp add: script_items_def)
  from inst2
  have "parse_points (findall (layout [] script_items))
      = map (\<lambda>(s, y, x, g). (to_double (number_of y), to_double (number_of x))) script_items"
    by blast
  then have v2: "parse_points (findall (layout [] script_items)) = [(Fin 12, Fin (69 / 2))]"
    by (simp only: demo_numbers(2))
  from demo_gaps demo_forms l f v demo_numbers(3,4,5) l2 f2 v2 show ?thesis
    by (simp del: ascii_Cons)
qed

section \<open>The backup model\<close>

lemma call_model_primary_fails:
  assumes "generate_content w primary_model prompt_text ai_img = Inl e"
  shows "call_model w prompt_text ai_img =
           ((case generate_content w backup_model prompt_text ai_img of
               Inl e2 \<Rightarrow> Inl e2 | Inr response \<Rightarrow> Inr response),
            [(primary_model, prompt_text, ai_img), (backup_model, prompt_text, ai_img)])"
  using assms by (simp add: call_model_def split: sum.splits)

lemma detect_in_text_nonempty:
  assumes "\<not> no_coordinate t" and "length (findall t) \<le> 702"
  shows "\<exists>hs. fst (detect_in_text w fs out t) = Inr hs \<and> hs \<noteq> []
               \<and> length hs = length (findall t)"
proof -
  from assms(1) have m: "findall t \<noteq> []" by (simp add: no_coordinate_iff)
  then have t: "t \<noteq> []" by auto
  have len: "length (parse_points (findall t)) = length (findall t)"
    by (simp add: parse_points_findall)
  with assms(2) have "sort_and_label (parse_points (findall t))
      = Inr (labelled 0 (sort_key snd (parse_points (findall t))))"
    by (simp add: sort_and_label_in)
  then have "fst (detect_in_text w fs out t) = Inr (labelled 0 (sort_key snd (parse_points (findall t))))"
    using m t by (simp add: detect_in_text_def Let_def)
  moreover have "length (labelled 0 (sort_key snd (parse_points (findall t)))) = length (findall t)"
    by (simp add: length_labelled len)
  ultimately show ?thesis using m by force
qed

text \<open>
  What holds of the fallback. When the call of the primary model raises, exactly one
  more call is made, to the backup model, with the same prompt and image. If that call
  raises too, the run returns the empty list and nothing escapes. If it succeeds and the
  text of the first candidate of its response holds at least one and at most 702
  coordinate points, the run returns a non-empty list, with one hotspot for each point.
\<close>

theorem backup_model_fallback:
  assumes "load_image w image_path = Inr ai_img"
    and "generate_content w primary_model prompt_text ai_img = Inl e"
  shows "calls (analyze_panorama w fs image_path prompt_text output_json_path)
           = [(primary_model, prompt_text, ai_img), (backup_model, prompt_text, ai_img)]
         \<and> (\<forall>e2. generate_content w backup_model prompt_text ai_img = Inl e2 \<longrightarrow>
               result (analyze_panorama w fs image_path prompt_text output_json_path) = Inr []
               \<and> files (analyze_panorama w fs image_path prompt_text output_json_path) = fs)
         \<and> (\<forall>response text_response.
               generate_content w backup_model prompt_text ai_img = Inr response \<longrightarrow>
               response_text response = Inr text_response \<longrightarrow>
               \<not> no_coordinate text_response \<longrightarrow>
               length (findall text_response) \<le> 702 \<longrightarrow>
               (\<exists>buildings_data.
                  result (analyze_panorama w fs image_path prompt_text output_json_path)
                    = Inr buildings_data
                  \<and> buildings_data \<noteq> []
                  \<and> length buildings_data = length (findall text_response)))"
proof -
  let ?a = "analyze_panorama w fs image_path prompt_text output_json_path"
  note cm = call_model_primary_fails [OF assms(2)]
  have c: "calls ?a = [(primary_model, prompt_text, ai_img), (backup_model, prompt_text, ai_img)]"
    by (cases "generate_content w backup_model prompt_text ai_img")
      (auto simp: analyze_panorama_def assms(1) cm split: sum.splits prod.splits)
  have b: "\<forall>e2. generate_content w backup_model prompt_text ai_img = Inl e2 \<longrightarrow>
               result ?a = Inr [] \<and> files ?a = fs"
    by (simp add: analyze_panorama_def assms(1) cm)
  have g: "\<forall>response text_response.
               generate_content w backup_model prompt_text ai_img = Inr response \<longrightarrow>
               response_text response = Inr text_response \<longrightarrow>
               \<not> no_coordinate text_response \<longrightarrow>
               length (findall text_response) \<le> 702 \<longrightarrow>
               (\<exists>buildings_data. result ?a = Inr buildings_data \<and> buildings_data \<noteq> []
                  \<and> length buildings_data = length (findall text_response))"
  proof (intro allI impI)
    fix response text_response
    assume r: "generate_content w backup_model prompt_text ai_img = Inr response"
      and t: "response_text response = Inr text_response"
      and n: "\<not> no_coordinate text_response"
      and l: "length (findall text_response) \<le> 702"
    from cm r have "call_model w prompt_text ai_img =
        (Inr response, [(primary_model, prompt_text, ai_img), (backup_model, prompt_text, ai_img)])"
      by simp
    from analyze_chain [OF assms(1) this t]
    have "result ?a = fst (detect_in_text w fs output_json_path text_response)"
      by simp
    with detect_in_text_nonempty [OF n l, of w fs output_json_path]
    show "\<exists>buildings_data. result ?a = Inr buildings_data \<and> buildings_data \<noteq> []
                  \<and> length buildings_data = length (findall text_response)"
      by simp
  qed
  from c b g show ?thesis by blast
qed

lemma demo_primary: "generate_content demo_world primary_model p i = Inl (Raised ''unavailable'')"
  by (simp add: demo_world_def)

lemma demo_backup: "generate_content demo_world backup_model p i = Inr demo_response"
  by (simp add: demo_world_def primary_model_def backup_model_def)

lemma silent_load: "load_image silent_world p = Inr 2048"
  by (simp add: load_image_def silent_world_def demo_world_def)

lemma silent_model: "generate_content silent_world m p i = Inl (Raised ''unavailable'')"
  by (simp add: silent_world_def)

theorem backup_model_fallback_witness:
  "load_image demo_world ''pano.jpg'' = Inr 2048
   \<and> generate_content demo_world primary_model ''prompt'' 2048 = Inl (Raised ''unavailable'')
   \<and> generate_content demo_world backup_model ''prompt'' 2048 = Inr demo_response
   \<and> response_text demo_response = Inr demo_text
   \<and> \<not> no_coordinate demo_text
   \<and> length (findall demo_text) = 3
   \<and> calls (analyze_panorama demo_world Map.empty ''pano.jpg'' ''prompt'' None)
       = [(primary_model, ''prompt'', 2048), (backup_model, ''prompt'', 2048)]
   \<and> (\<exists>buildings_data.
         result (analyze_panorama demo_world Map.empty ''pano.jpg'' ''prompt'' None) = Inr buildings_data
         \<and> buildings_data \<noteq> [] \<and> length buildings_data = 3)
   \<and> load_image silent_world ''pano.jpg'' = Inr 2048
   \<and> generate_content silent_world primary_model ''prompt'' 2048 = Inl (Raised ''unavailable'')
   \<and> generate_content silent_world backup_model ''prompt'' 2048 = Inl (Raised ''unavailable'')
   \<and> calls (analyze_panorama silent_world Map.empty ''pano.jpg'' ''prompt'' None)
       = [(primary_model, ''prompt'', 2048), (backup_model, ''prompt'', 2048)]
   \<and> result (analyze_panorama silent_world Map.empty ''pano.jpg'' ''prompt'' None) = Inr []"
proof -
  note quiet = backup_model_fallback [where w = silent_world and image_path = "''pano.jpg''"
      and prompt_text = "''prompt''" and fs = Map.empty and output_json_path = None,
      OF silent_load silent_model]
  from quiet have sc: "calls (analyze_panorama silent_world Map.empty ''pano.jpg'' ''prompt'' None)
       = [(primary_model, ''prompt'', 2048), (backup_model, ''prompt'', 2048)]"
    by blast
  from quiet silent_model [of backup_model "''prompt''" 2048]
  have sr: "result (analyze_panorama silent_world Map.empty ''pano.jpg'' ''prompt'' None) = Inr []"
    by blast
  have n: "\<not> no_coordinate demo_text"
    by (simp add: no_coordinate_iff demo_matches)
  have l: "length (findall demo_text) = 3"
    by (simp add: demo_findall)
  then have l702: "length (findall demo_text) \<le> 702" by simp
  note inst = backup_model_fallback [where w = demo_world and image_path = "''pano.jpg''"
      and prompt_text = "''prompt''" and fs = Map.empty and output_json_path = None,
      OF demo_load demo_primary]
  from inst have "calls (analyze_panorama demo_world Map.empty ''pano.jpg'' ''prompt'' None)
       = [(primary_model, ''prompt'', 2048), (backup_model, ''prompt'', 2048)]"
    by blast
  moreover from inst demo_backup demo_response_text n l702
  have "\<exists>buildings_data.
         result (analyze_panorama demo_world Map.empty ''pano.jpg'' ''prompt'' None) = Inr buildings_data
         \<and> buildings_data \<noteq> [] \<and> length buildings_data = length (findall demo_text)"
    by blast
  ultimately show ?thesis
    using demo_load demo_primary demo_backup demo_response_text n l sc sr silent_load
      silent_model
    by simp
qed

lemma crowded_primary:
  "generate_content crowded_world primary_model p i = Inl (Raised ''unavailable'')"
  by (simp add: crowded_world_def)

lemma crowded_backup: "generate_content crowded_world backup_model p i = Inr crowded_response"
  by (simp add: crowded_world_def primary_model_def backup_model_def)

text \<open>
  C6. The detection result is not always non-empty when the primary model fails and the
  response of the backup model holds valid coordinate points. With the primary model
  unavailable and 703 points in the response of the backup model, the one call to the
  backup model is made and succeeds, its response does hold valid coordinate points, and
  the run returns no list at all: the IndexError of position 702 (line 98) leaves
  \<open>analyze_panorama\<close>, where a failure of the image or of both models returns \<^verbatim>\<open>[]\<close>.
\<close>

theorem backup_model_703_points:
  "load_image crowded_world ''pano.jpg'' = Inr 2048
   \<and> generate_content crowded_world primary_model ''prompt'' 2048 = Inl (Raised ''unavailable'')
   \<and> generate_content crowded_world backup_model ''prompt'' 2048 = Inr crowded_response
   \<and> response_text crowded_response = Inr crowded_text
   \<and> \<not> no_coordinate crowded_text
   \<and> length (parse_points (findall crowded_text)) = 703
   \<and> calls (analyze_panorama crowded_world Map.empty ''pano.jpg'' ''prompt'' None)
       = [(primary_model, ''prompt'', 2048), (backup_model, ''prompt'', 2048)]
   \<and> result (analyze_panorama crowded_world Map.empty ''pano.jpg'' ''prompt'' None) = Inl IndexError"
proof -
  have c: "calls (analyze_panorama crowded_world Map.empty ''pano.jpg'' ''prompt'' None)
       = [(primary_model, ''prompt'', 2048), (backup_model, ''prompt'', 2048)]"
    by (simp add: analyze_chain [OF crowded_load crowded_call crowded_response_text])
  have "findall crowded_text \<noteq> []"
    using crowded_points by auto
  then have n: "\<not> no_coordinate crowded_text"
    by (simp add: no_coordinate_iff)
  have "702 < length (parse_points (findall crowded_text))"
    by (simp add: crowded_points)
  then have "result (analyze_panorama crowded_world Map.empty ''pano.jpg'' ''prompt'' None)
               = Inl IndexError"
    by (simp add: analyze_chain [OF crowded_load crowded_call crowded_response_text]
          detect_in_text_raise)
  with crowded_load crowded_primary crowded_backup crowded_response_text n c crowded_points
  show ?thesis
    by simp
qed

section \<open>The stored hotspots\<close>

lemma json_path_eq:
  "json_path a = (if a \<noteq> [] \<and> hd a = CHR ''/'' then a @ ''.json''
                  else ''static/processed/'' @ a @ ''.json'')"
  by (cases a) (simp_all add: json_path_def os_path_join_def PROCESSED_FOLDER_def)

lemma json_path_inj: "json_path a = json_path b \<Longrightarrow> a = b"
proof -
  assume e: "json_path a = json_path b"
  show ?thesis
  proof (cases "a \<noteq> [] \<and> hd a = CHR ''/''")
    case True
    then obtain a' where a: "a = CHR ''/'' # a'" by (cases a) auto
    show ?thesis
    proof (cases "b \<noteq> [] \<and> hd b = CHR ''/''")
      case True
      with e a show ?thesis by (simp add: json_path_eq)
    next
      case False
      with e a show ?thesis by (simp add: json_path_eq)
    qed
  next
    case False
    note na = this
    show ?thesis
    proof (cases "b \<noteq> [] \<and> hd b = CHR ''/''")
      case True
      then obtain b' where "b = CHR ''/'' # b'" by (cases b) auto
      with e na show ?thesis by (simp add: json_path_eq)
    next
      case False
      with e na show ?thesis by (simp add: json_path_eq)
    qed
  qed
qed

lemma run_saves_other:
  "session_id \<notin> fst ` set requests \<Longrightarrow>
     run_saves w fs requests (json_path session_id) = fs (json_path session_id)"
proof (induction requests arbitrary: fs)
  case Nil
  show ?case by simp
next
  case (Cons r requests)
  obtain other data where r: "r = (other, data)" by (cases r)
  with Cons.prems have "other \<noteq> session_id" and rest: "session_id \<notin> fst ` set requests"
    by auto
  then have "json_path other \<noteq> json_path session_id"
    using json_path_inj by blast
  then show ?case
    using Cons.IH [OF rest] by (simp add: r save_data_def)
qed

text \<open>
  C9. For a session whose record file does not exist, and after any save requests for
  other sessions, \<open>get_data\<close> answers with the empty list; it raises nothing.
\<close>

theorem load_without_record:
  assumes "fs (json_path session_id) = None"
    and "session_id \<notin> fst ` set requests"
  shows "get_data w (run_saves w fs requests) session_id = Inr (JArray [])"
  using assms by (simp add: get_data_def run_saves_other)

theorem load_without_record_witness:
  "Map.empty (json_path ''fresh'') = (None :: str option)
   \<and> ''fresh'' \<notin> fst ` set [(''other'', demo_data), (''third'', JArray [])]
   \<and> get_data store_world
        (run_saves store_world Map.empty [(''other'', demo_data), (''third'', JArray [])]) ''fresh''
       = Inr (JArray [])"
proof -
  have a: "Map.empty (json_path ''fresh'') = (None :: str option)" by simp
  have b: "''fresh'' \<notin> fst ` set [(''other'', demo_data), (''third'', JArray [])]" by simp
  from load_without_record [OF a b] a b show ?thesis by blast
qed



end
